theory Spec2Isabelle
  imports Complex_Main
begin

section \<open>Python values used by hypo71_to_NLL.py\<close>

text \<open>
  The script reads its input with \<^verbatim>\<open>open(pick_file, encoding='ascii')\<close>, so every
  character of every line has a code below 128. The character predicates below are
  Python's on such text. A raised exception is a value \<open>Inl e\<close> of a sum type; a
  returned value is \<open>Inr v\<close>.
\<close>

datatype pyerr =
    IndexError
  | ValueError
  | OverflowError
  | AttributeError
  | TypeError string
  | SystemExit string
  | ParserError string

definition and_then :: "pyerr + 'a \<Rightarrow> ('a \<Rightarrow> pyerr + 'b) \<Rightarrow> pyerr + 'b" where
  "and_then r f = (case r of Inl e \<Rightarrow> Inl e | Inr x \<Rightarrow> f x)"

subsection \<open>Strings\<close>

definition newline :: char where
  "newline = CHR 0x0A"

text \<open>\<^verbatim>\<open>str.isspace\<close> on ASCII: TAB, LF, VT, FF, CR, FS, GS, RS, US and the blank.\<close>

definition isspace :: "char \<Rightarrow> bool" where
  "isspace c = ((of_char c :: nat) \<in> {9, 10, 11, 12, 13, 28, 29, 30, 31, 32})"

text \<open>\<^verbatim>\<open>str.isdigit\<close> on ASCII: the ten decimal digits.\<close>

definition isdigit :: "char \<Rightarrow> bool" where
  "isdigit c = (48 \<le> (of_char c :: nat) \<and> (of_char c :: nat) \<le> 57)"

text \<open>\<^verbatim>\<open>s.strip()\<close>: whitespace removed at both ends.\<close>

definition strip :: "string \<Rightarrow> string" where
  "strip s = rev (dropWhile isspace (rev (dropWhile isspace s)))"

text \<open>\<^verbatim>\<open>s.replace(old, new)\<close> for a one-character \<open>old\<close>.\<close>

definition replace_char :: "char \<Rightarrow> string \<Rightarrow> string \<Rightarrow> string" where
  "replace_char old new s = concat (map (\<lambda>c. if c = old then new else [c]) s)"

text \<open>\<^verbatim>\<open>s[i:j]\<close> for \<open>0 \<le> i \<le> j\<close>: never raises, shorter when \<open>s\<close> ends early.\<close>

definition slice :: "'a list \<Rightarrow> nat \<Rightarrow> nat \<Rightarrow> 'a list" where
  "slice s i j = take (j - i) (drop i s)"

text \<open>\<^verbatim>\<open>s[i]\<close>: a negative index counts from the end; out of range raises IndexError.\<close>

definition getitem :: "'a list \<Rightarrow> int \<Rightarrow> pyerr + 'a" where
  "getitem xs i =
     (if 0 \<le> i \<and> i < int (length xs) then Inr (xs ! nat i)
      else if - int (length xs) \<le> i \<and> i < 0 then Inr (xs ! nat (int (length xs) + i))
      else Inl IndexError)"

subsection \<open>The builtin int() on a string\<close>

text \<open>
  The C-level whitespace that \<^verbatim>\<open>int()\<close> and \<^verbatim>\<open>float()\<close> skip at both ends of an ASCII
  string: TAB, LF, VT, FF, CR and the blank (not FS..US, which \<^verbatim>\<open>str.strip\<close> removes).
\<close>

definition c_isspace :: "char \<Rightarrow> bool" where
  "c_isspace c = ((of_char c :: nat) \<in> {9, 10, 11, 12, 13, 32})"

definition c_strip :: "string \<Rightarrow> string" where
  "c_strip s = rev (dropWhile c_isspace (rev (dropWhile c_isspace s)))"

definition digit_value :: "char \<Rightarrow> int" where
  "digit_value c = int (of_char c) - 48"

definition digits_value :: "string \<Rightarrow> int" where
  "digits_value ds = foldl (\<lambda>a c. 10 * a + digit_value c) 0 ds"

text \<open>
  An underscore may stand only between two digits; \<open>prev\<close> is the character before
  the rest (NUL at the start).
\<close>

fun underscores_ok :: "char \<Rightarrow> string \<Rightarrow> bool" where
  "underscores_ok prev [] = (prev \<noteq> CHR ''_'')"
| "underscores_ok prev (c # cs) =
     (if c = CHR ''_'' then isdigit prev \<and> underscores_ok c cs
      else (isdigit c \<or> prev \<noteq> CHR ''_'') \<and> underscores_ok c cs)"

definition take_sign :: "string \<Rightarrow> bool \<times> string" where
  "take_sign s =
     (case s of
        [] \<Rightarrow> (False, [])
      | c # cs \<Rightarrow>
          if c = CHR ''-'' then (True, cs)
          else if c = CHR ''+'' then (False, cs)
          else (False, s))"

text \<open>
  \<^verbatim>\<open>int(s)\<close> in base 10: optional whitespace, an optional sign, digits with single
  underscores between them, optional whitespace; anything else raises ValueError.
\<close>

definition py_int :: "string \<Rightarrow> pyerr + int" where
  "py_int s =
     (let (neg, body) = take_sign (c_strip s) in
      if body \<noteq> [] \<and> list_all (\<lambda>c. isdigit c \<or> c = CHR ''_'') body
         \<and> underscores_ok (CHR 0x00) body
      then (let v = digits_value (filter isdigit body) in Inr (if neg then - v else v))
      else Inl ValueError)"

subsection \<open>The builtin float(): IEEE 754 binary64\<close>

text \<open>
  A Python float is a binary64 number. \<open>Finite s m e\<close> is the number
  \<open>(if s then -1 else 1) * m * 2 ^ e\<close> with \<open>0 \<le> m\<close>; every function below depends
  only on that number, never on which of its representations it is given. The sign of a
  zero is kept but plays no part in this program.
\<close>

datatype pyfloat = Finite bool int int | Infinite bool | NaN

text \<open>The number of binary digits of a positive integer.\<close>

function bitlen :: "int \<Rightarrow> int" where
  "bitlen n = (if n \<le> 0 then 0 else 1 + bitlen (n div 2))"
  by pat_completeness auto
termination
  by (relation "measure nat") auto

declare bitlen.simps [simp del]

text \<open>The integer nearest to \<open>p / d\<close>, a tie going to the even one (\<open>0 < d\<close>).\<close>

definition round_half_even :: "int \<Rightarrow> int \<Rightarrow> int" where
  "round_half_even p d =
     (let q = p div d; r = p mod d
      in if d < 2 * r \<or> (2 * r = d \<and> odd q) then q + 1 else q)"

text \<open>\<open>\<lfloor>log\<^sub>2 (p / q)\<rfloor>\<close> for positive \<open>p\<close> and \<open>q\<close>.\<close>

definition binary_exponent :: "int \<Rightarrow> int \<Rightarrow> int" where
  "binary_exponent p q =
     (let b = bitlen p - bitlen q
      in if (if 0 \<le> b then q * 2 ^ nat b \<le> p else q \<le> p * 2 ^ nat (- b)) then b else b - 1)"

text \<open>
  The binary64 number nearest to \<open>p / q\<close> (round to nearest, ties to even): 53 bits of
  mantissa, the exponent of the last place no smaller than \<open>-1074\<close> (subnormal numbers),
  and infinity from \<open>2 ^ 1024\<close> on.
\<close>

definition round_binary64 :: "bool \<Rightarrow> int \<Rightarrow> int \<Rightarrow> pyfloat" where
  "round_binary64 s p q =
     (if p = 0 then Finite s 0 0
      else
        (let e = max (binary_exponent p q - 52) (- 1074);
             m = (if 0 \<le> e then round_half_even p (q * 2 ^ nat e)
                  else round_half_even (p * 2 ^ nat (- e)) q)
         in if 1024 < bitlen m + e then Infinite s else Finite s m e))"

definition lower_ascii :: "char \<Rightarrow> char" where
  "lower_ascii c =
     (if 65 \<le> (of_char c :: nat) \<and> (of_char c :: nat) \<le> 90 then char_of ((of_char c :: nat) + 32)
      else c)"

text \<open>
  The exponent part of a decimal literal: nothing, or \<open>e\<close>/\<open>E\<close>, an optional sign and
  at least one digit.
\<close>

definition parse_exponent :: "string \<Rightarrow> int option" where
  "parse_exponent s =
     (case s of
        [] \<Rightarrow> Some 0
      | c # cs \<Rightarrow>
          if c \<in> set [CHR ''e'', CHR ''E''] then
            (let (neg, ds) = take_sign cs in
             if ds \<noteq> [] \<and> list_all isdigit ds
             then Some (if neg then - digits_value ds else digits_value ds)
             else None)
          else None)"

text \<open>
  A stripped literal: an optional sign, then \<open>inf\<close>, \<open>infinity\<close> or \<open>nan\<close> in any
  case, or digits with an optional point and an optional exponent, at least one digit
  before the exponent. The value is the correctly rounded binary64 number.
\<close>

definition parse_float_literal :: "string \<Rightarrow> pyerr + pyfloat" where
  "parse_float_literal s =
     (let (neg, r1) = take_sign s; word = map lower_ascii r1 in
      if word \<in> set [''inf'', ''infinity''] then Inr (Infinite neg)
      else if word = ''nan'' then Inr NaN
      else
        (let ip = takeWhile isdigit r1; r2 = dropWhile isdigit r1;
             has_point = (r2 \<noteq> [] \<and> hd r2 = CHR ''.'');
             fp = (if has_point then takeWhile isdigit (tl r2) else []);
             r3 = (if has_point then dropWhile isdigit (tl r2) else r2)
         in if ip = [] \<and> fp = [] then Inl ValueError
            else
              (case parse_exponent r3 of
                 None \<Rightarrow> Inl ValueError
               | Some ex \<Rightarrow>
                   (let n = digits_value (ip @ fp); k = ex - int (length fp)
                    in Inr (if 0 \<le> k then round_binary64 neg (n * 10 ^ nat k) 1
                            else round_binary64 neg n (10 ^ nat (- k)))))))"

text \<open>
  \<^verbatim>\<open>float(s)\<close>: underscores are checked on the whole string and removed, whitespace
  is stripped at both ends, and the rest must be one literal.
\<close>

definition py_float :: "string \<Rightarrow> pyerr + pyfloat" where
  "py_float s =
     (if \<not> underscores_ok (CHR 0x00) s then Inl ValueError
      else
        (let t = c_strip (filter (\<lambda>c. c \<noteq> CHR ''_'') s)
         in if t = [] then Inl ValueError else parse_float_literal t))"

text \<open>The float of a Python int small enough to be exact (here: 1000 and 1000000).\<close>

definition float_of_small_int :: "int \<Rightarrow> pyfloat" where
  "float_of_small_int i = Finite (i < 0) \<bar>i\<bar> 0"

text \<open>\<^verbatim>\<open>x * y\<close> on floats: the exact product, rounded.\<close>

fun float_mul :: "pyfloat \<Rightarrow> pyfloat \<Rightarrow> pyfloat" where
  "float_mul NaN y = NaN"
| "float_mul x NaN = NaN"
| "float_mul (Infinite s) (Infinite t) = Infinite (s \<noteq> t)"
| "float_mul (Infinite s) (Finite t m e) = (if m = 0 then NaN else Infinite (s \<noteq> t))"
| "float_mul (Finite s m e) (Infinite t) = (if m = 0 then NaN else Infinite (s \<noteq> t))"
| "float_mul (Finite s m e) (Finite t n f) =
     (if 0 \<le> e + f then round_binary64 (s \<noteq> t) (m * n * 2 ^ nat (e + f)) 1
      else round_binary64 (s \<noteq> t) (m * n) (2 ^ nat (- (e + f))))"

text \<open>The magnitude of a finite float cut to an integer, and what is cut off.\<close>

definition trunc_magnitude :: "int \<Rightarrow> int \<Rightarrow> int" where
  "trunc_magnitude m e = (if 0 \<le> e then m * 2 ^ nat e else m div 2 ^ nat (- e))"

text \<open>\<^verbatim>\<open>int(x)\<close> on a float: truncation toward zero.\<close>

definition py_int_of_float :: "pyfloat \<Rightarrow> pyerr + int" where
  "py_int_of_float x =
     (case x of
        NaN \<Rightarrow> Inl ValueError
      | Infinite s \<Rightarrow> Inl OverflowError
      | Finite s m e \<Rightarrow>
          Inr (if s then - trunc_magnitude m e else trunc_magnitude m e))"

text \<open>The rational number a finite float stands for (zero for the others).\<close>

definition float_val :: "pyfloat \<Rightarrow> rat" where
  "float_val x =
     (case x of
        Finite s m e \<Rightarrow>
          (if s then - 1 else 1) * of_int m
            * (if 0 \<le> e then 2 ^ nat e else 1 / 2 ^ nat (- e))
      | Infinite s \<Rightarrow> 0
      | NaN \<Rightarrow> 0)"

subsection \<open>datetime and timedelta\<close>

text \<open>
  A naive \<^verbatim>\<open>datetime\<close> is a point of the proleptic Gregorian time line at microsecond
  resolution, and \<^verbatim>\<open>datetime\<close> arithmetic is arithmetic on that line. A datetime is
  represented by its number of microseconds since the midnight that starts ordinal day 0
  (0001-01-01 is ordinal day 1, as \<^verbatim>\<open>toordinal()\<close> counts); its fields are read off
  that number. A \<^verbatim>\<open>timedelta\<close> is a number of microseconds.
\<close>

type_synonym datetime = int

type_synonym timedelta = int

definition us_per_day :: int where
  "us_per_day = 86400000000"

definition is_leap :: "int \<Rightarrow> bool" where
  "is_leap y = (y mod 4 = 0 \<and> (y mod 400 = 0 \<or> y mod 100 \<noteq> 0))"

definition days_in_month :: "int \<Rightarrow> int \<Rightarrow> int" where
  "days_in_month y m =
     (if m = 2 then (if is_leap y then 29 else 28)
      else if m \<in> {4, 6, 9, 11} then 30 else 31)"

definition days_before_year :: "int \<Rightarrow> int" where
  "days_before_year y = 365 * (y - 1) + (y - 1) div 4 - (y - 1) div 100 + (y - 1) div 400"

function days_before_month :: "int \<Rightarrow> int \<Rightarrow> int" where
  "days_before_month y m =
     (if m \<le> 1 then 0 else days_before_month y (m - 1) + days_in_month y (m - 1))"
  by pat_completeness auto
termination
  by (relation "measure (\<lambda>(y, m). nat m)") auto

declare days_before_month.simps [simp del]

definition ymd2ord :: "int \<Rightarrow> int \<Rightarrow> int \<Rightarrow> int" where
  "ymd2ord y m d = days_before_year y + days_before_month y m + d"

text \<open>
  The year of ordinal day \<open>n\<close>: the first \<open>y\<close>, from a lower estimate on, whose last
  day is not before \<open>n\<close>.
\<close>

function find_year :: "int \<Rightarrow> int \<Rightarrow> int" where
  "find_year y n = (if days_before_year (y + 1) < n then find_year (y + 1) n else y)"
  by pat_completeness auto
termination
proof (relation "measure (\<lambda>(y, n). nat (n - days_before_year (y + 1)))")
  show "wf (measure (\<lambda>(y, n). nat (n - days_before_year (y + 1))))"
    by simp
next
  fix y n :: int
  assume less: "days_before_year (y + 1) < n"
  have a: "y div 4 \<le> (1 + y) div 4"
    by (rule zdiv_mono1) simp_all
  have "(1 + y) div 100 \<le> (y + 100) div 100"
    by (rule zdiv_mono1) simp_all
  then have b: "(1 + y) div 100 \<le> y div 100 + 1"
    by simp
  have c: "y div 400 \<le> (1 + y) div 400"
    by (rule zdiv_mono1) simp_all
  have d: "days_before_year (y + 1) = 365 * y + y div 4 - y div 100 + y div 400"
    by (simp add: days_before_year_def)
  have e: "days_before_year (y + 1 + 1)
      = 365 + 365 * y + (1 + y) div 4 - (1 + y) div 100 + (1 + y) div 400"
    by (simp add: days_before_year_def)
  have "days_before_year (y + 1) < days_before_year (y + 1 + 1)"
    unfolding d e using a b c by linarith
  with less show "((y + 1, n), (y, n)) \<in> measure (\<lambda>(y, n). nat (n - days_before_year (y + 1)))"
    by simp
qed

declare find_year.simps [simp del]

text \<open>The month and day of the \<open>n\<close>-th day of year \<open>y\<close>, counted from month \<open>m\<close> on.\<close>

function find_month :: "int \<Rightarrow> int \<Rightarrow> int \<Rightarrow> int \<times> int" where
  "find_month y m n =
     (if m < 12 \<and> days_in_month y m < n then find_month y (m + 1) (n - days_in_month y m)
      else (m, n))"
  by pat_completeness auto
termination
  by (relation "measure (\<lambda>(y, m, n). nat (12 - m))") auto

declare find_month.simps [simp del]

definition ord2ymd :: "int \<Rightarrow> int \<times> int \<times> int" where
  "ord2ymd n =
     (let y = find_year ((n - 1) div 366 + 1) n
      in (y, find_month y 1 (n - days_before_year y)))"

definition dt_year :: "datetime \<Rightarrow> int" where
  "dt_year t = fst (ord2ymd (t div us_per_day))"

definition dt_month :: "datetime \<Rightarrow> int" where
  "dt_month t = fst (snd (ord2ymd (t div us_per_day)))"

definition dt_day :: "datetime \<Rightarrow> int" where
  "dt_day t = snd (snd (ord2ymd (t div us_per_day)))"

definition dt_hour :: "datetime \<Rightarrow> int" where
  "dt_hour t = (t mod us_per_day) div 3600000000"

definition dt_minute :: "datetime \<Rightarrow> int" where
  "dt_minute t = (t mod 3600000000) div 60000000"

definition dt_second :: "datetime \<Rightarrow> int" where
  "dt_second t = (t mod 60000000) div 1000000"

definition dt_microsecond :: "datetime \<Rightarrow> int" where
  "dt_microsecond t = t mod 1000000"

text \<open>The range of \<^verbatim>\<open>datetime\<close>: 0001-01-01 to 9999-12-31 (ordinal 3652059).\<close>

definition datetime_valid :: "int \<Rightarrow> bool" where
  "datetime_valid t = (us_per_day \<le> t \<and> t < 3652060 * us_per_day)"

definition datetime_check :: "int \<Rightarrow> pyerr + datetime" where
  "datetime_check t = (if datetime_valid t then Inr t else Inl OverflowError)"

text \<open>The range of \<^verbatim>\<open>timedelta\<close>: at most 999999999 days either way.\<close>

definition timedelta_check :: "int \<Rightarrow> pyerr + timedelta" where
  "timedelta_check us =
     (if - 999999999 \<le> us div us_per_day \<and> us div us_per_day \<le> 999999999 then Inr us
      else Inl OverflowError)"

text \<open>\<^verbatim>\<open>timedelta(hours=h, minutes=mi, milliseconds=ms)\<close> on ints.\<close>

definition timedelta_hmms :: "int \<Rightarrow> int \<Rightarrow> int \<Rightarrow> pyerr + timedelta" where
  "timedelta_hmms h mi ms = timedelta_check (h * 3600000000 + mi * 60000000 + ms * 1000)"

text \<open>
  \<^verbatim>\<open>timedelta(seconds=x)\<close> on a float: the whole seconds are counted exactly, the
  fraction is multiplied by \<open>10\<^sup>6\<close> in float arithmetic, and the sum is rounded to the
  nearest microsecond, a tie going to the even one.
\<close>

definition timedelta_seconds :: "pyfloat \<Rightarrow> pyerr + timedelta" where
  "timedelta_seconds x =
     (case x of
        NaN \<Rightarrow> Inl ValueError
      | Infinite s \<Rightarrow> Inl OverflowError
      | Finite s m e \<Rightarrow>
          (let whole = trunc_magnitude m e;
               frac = (if 0 \<le> e then Finite False 0 0 else Finite False (m mod 2 ^ nat (- e)) e)
           in case float_mul frac (float_of_small_int 1000000) of
                Finite s' m' e' \<Rightarrow>
                  (let us = whole * 1000000
                         + (if 0 \<le> e' then m' * 2 ^ nat e' else round_half_even m' (2 ^ nat (- e')))
                   in timedelta_check (if s then - us else us))
              | Infinite s' \<Rightarrow> Inl OverflowError
              | NaN \<Rightarrow> Inl ValueError))"

text \<open>\<^verbatim>\<open>t + d\<close>: OverflowError when the sum leaves the range of \<^verbatim>\<open>datetime\<close>.\<close>

definition datetime_add :: "datetime \<Rightarrow> timedelta \<Rightarrow> pyerr + datetime" where
  "datetime_add t d = datetime_check (t + d)"

text \<open>\<^verbatim>\<open>t.replace(second=0, microsecond=0)\<close>.\<close>

definition replace_second_microsecond :: "datetime \<Rightarrow> datetime" where
  "replace_second_microsecond t = t - t mod 60000000"

text \<open>
  \<^verbatim>\<open>datetime.strptime(s, '%y%m%d')\<close>. The format is matched as the regular expression
  \<^verbatim>\<open>(\d\d)(1[0-2]|0[1-9]|[1-9])(3[01]|[12]\d|0[1-9]|[1-9]| [1-9])\<close> at the start of
  \<open>s\<close>, alternatives tried in order; the first match must use up \<open>s\<close>. Years 00 to 68
  are 2000 to 2068, years 69 to 99 are 1969 to 1999, and the day must exist in its month.
\<close>

definition regex_month :: "string \<Rightarrow> (int \<times> string) list" where
  "regex_month s =
     (case s of
        [] \<Rightarrow> []
      | c1 # r1 \<Rightarrow>
          (case r1 of
             [] \<Rightarrow> []
           | c2 # r2 \<Rightarrow>
               if (c1 = CHR ''1'' \<and> c2 \<in> set ''012'') \<or> (c1 = CHR ''0'' \<and> c2 \<in> set ''123456789'')
               then [(10 * digit_value c1 + digit_value c2, r2)] else [])
          @ (if c1 \<in> set ''123456789'' then [(digit_value c1, r1)] else []))"

definition regex_day :: "string \<Rightarrow> (int \<times> string) list" where
  "regex_day s =
     (case s of
        [] \<Rightarrow> []
      | c1 # r1 \<Rightarrow>
          (case r1 of
             [] \<Rightarrow> []
           | c2 # r2 \<Rightarrow>
               if (c1 = CHR ''3'' \<and> c2 \<in> set ''01'') \<or> (c1 \<in> set ''12'' \<and> isdigit c2)
                  \<or> (c1 = CHR ''0'' \<and> c2 \<in> set ''123456789'')
               then [(10 * digit_value c1 + digit_value c2, r2)] else [])
          @ (if c1 \<in> set ''123456789'' then [(digit_value c1, r1)] else [])
          @ (case r1 of
               [] \<Rightarrow> []
             | c2 # r2 \<Rightarrow>
                 if c1 = CHR '' '' \<and> c2 \<in> set ''123456789'' then [(digit_value c2, r2)] else []))"

definition make_date :: "int \<Rightarrow> int \<Rightarrow> int \<Rightarrow> pyerr + datetime" where
  "make_date y m d =
     (if 1 \<le> y \<and> y \<le> 9999 \<and> 1 \<le> m \<and> m \<le> 12 \<and> 1 \<le> d \<and> d \<le> days_in_month y m
      then Inr (ymd2ord y m d * us_per_day) else Inl ValueError)"

definition strptime_ymd :: "string \<Rightarrow> pyerr + datetime" where
  "strptime_ymd s =
     (case s of
        [] \<Rightarrow> Inl ValueError
      | c1 # s1 \<Rightarrow>
          (case s1 of
             [] \<Rightarrow> Inl ValueError
           | c2 # r \<Rightarrow>
               if isdigit c1 \<and> isdigit c2 then
                 (case concat (map (\<lambda>(m, r1). map (\<lambda>(d, r2). (m, d, r2)) (regex_day r1))
                                (regex_month r)) of
                    [] \<Rightarrow> Inl ValueError
                  | first # others \<Rightarrow>
                      (case first of (m, d, rest) \<Rightarrow>
                         if rest \<noteq> [] then Inl ValueError
                         else
                           (let yy = 10 * digit_value c1 + digit_value c2
                            in make_date (if yy \<le> 68 then 2000 + yy else 1900 + yy) m d)))
               else Inl ValueError))"

text \<open>
  \<^verbatim>\<open>t.strftime('%Y%m%d %H%M %S.%f')\<close>. \<^verbatim>\<open>%Y\<close> is the year in decimal: the C library
  does not pad it, so it has four digits from the year 1000 on (the only years this
  development states anything about).
\<close>

definition digit_char :: "int \<Rightarrow> char" where
  "digit_char d = char_of (48 + d)"

function decimal :: "int \<Rightarrow> string" where
  "decimal n = (if n < 10 then [digit_char n] else decimal (n div 10) @ [digit_char (n mod 10)])"
  by pat_completeness auto
termination
  by (relation "measure nat") auto

declare decimal.simps [simp del]

definition zfill :: "nat \<Rightarrow> string \<Rightarrow> string" where
  "zfill w s = replicate (w - length s) (CHR ''0'') @ s"

definition strftime_nlloc :: "datetime \<Rightarrow> string" where
  "strftime_nlloc t =
     decimal (dt_year t) @ zfill 2 (decimal (dt_month t)) @ zfill 2 (decimal (dt_day t))
     @ '' '' @ zfill 2 (decimal (dt_hour t)) @ zfill 2 (decimal (dt_minute t))
     @ '' '' @ zfill 2 (decimal (dt_second t)) @ ''.'' @ zfill 6 (decimal (dt_microsecond t))"

section \<open>The Pick class\<close>

text \<open>
  The error table is whatever list the caller passes, and a pick's \<open>error\<close> is the entry
  the decoder looked up: its type \<open>'e\<close> is left open. \<^verbatim>\<open>Pick()\<close> starts with
  \<^verbatim>\<open>time = None\<close>, so \<open>time\<close> is optional.
\<close>

record 'e Pick =
  station :: string
  flag :: string
  phase :: string
  polarity :: string
  quality :: int
  error :: 'e
  time :: "datetime option"

text \<open>\<^verbatim>\<open>f'{s:6}'\<close> on a string: blanks are added after \<open>s\<close> up to width 6.\<close>

definition ljust :: "nat \<Rightarrow> string \<Rightarrow> string" where
  "ljust w s = s @ replicate (w - length s) (CHR '' '')"

text \<open>
  \<^verbatim>\<open>Pick.to_nlloc\<close>. \<open>str_error\<close> is Python's \<^verbatim>\<open>str\<close> on the value of \<open>error\<close>. A
  pick whose \<open>time\<close> is still \<^verbatim>\<open>None\<close> has no \<^verbatim>\<open>strftime\<close>: AttributeError.
\<close>

definition to_nlloc :: "('e \<Rightarrow> string) \<Rightarrow> 'e Pick \<Rightarrow> pyerr + string" where
  "to_nlloc str_error p =
     (case time p of
        None \<Rightarrow> Inl AttributeError
      | Some t \<Rightarrow>
          Inr (ljust 6 (station p) @ '' ? ? ? '' @ phase p @ '' '' @ strftime_nlloc t
               @ '' GAU '' @ str_error (error p) @ '' 1.0 1.0 1.0''))"

section \<open>The format validator\<close>

text \<open>
  Lines 73 to 75 of the source:
  \<^verbatim>\<open>line[5] in ['P', ' '] and line[9].isdigit() and line[20].isdigit()\<close>.
  The conjunction is evaluated left to right and stops at the first false operand; an
  index past the end of the line raises IndexError.
\<close>

definition validator_signature :: "string \<Rightarrow> pyerr + bool" where
  "validator_signature line =
     and_then (getitem line 5) (\<lambda>c5.
       if c5 \<notin> set [CHR ''P'', CHR '' ''] then Inr False
       else and_then (getitem line 9) (\<lambda>c9.
         if \<not> isdigit c9 then Inr False
         else and_then (getitem line 20) (\<lambda>c20. Inr (isdigit c20))))"

text \<open>
  \<^verbatim>\<open>_is_hypo71_picks\<close>, as a loop over the lines of the file (each line as the file
  iterator yields it, with its newline).
\<close>

fun is_hypo71_picks :: "string \<Rightarrow> string list \<Rightarrow> pyerr + unit" where
  "is_hypo71_picks pick_file [] = Inr ()"
| "is_hypo71_picks pick_file (raw # rest) =
     (let line = replace_char newline [] raw;
          stripped_line = strip line
      in if stripped_line \<in> set [''10'', ''''] then is_hypo71_picks pick_file rest
         else and_then (validator_signature line) (\<lambda>ok.
           if \<not> ok then Inl (TypeError (pick_file @ '': Not a hypo71 phase file''))
           else is_hypo71_picks pick_file rest))"

section \<open>The pick decoder\<close>

text \<open>Lines 98 to 100: the decoder's own copy of the signature test.\<close>

definition decoder_signature :: "string \<Rightarrow> pyerr + bool" where
  "decoder_signature line =
     and_then (getitem line 5) (\<lambda>c5.
       if c5 \<notin> set [CHR ''P'', CHR '' ''] then Inr False
       else and_then (getitem line 9) (\<lambda>c9.
         if \<not> isdigit c9 then Inr False
         else and_then (getitem line 20) (\<lambda>c20. Inr (isdigit c20))))"

text \<open>Lines 107 to 112 and 139 to 144: \<^verbatim>\<open>try: int(field) except ValueError: 4\<close>.\<close>

definition read_quality :: "string \<Rightarrow> pyerr + int" where
  "read_quality field =
     (case py_int field of
        Inr q \<Rightarrow> Inr q
      | Inl e \<Rightarrow> if e = ValueError then Inr 4 else Inl e)"

text \<open>Lines 114 to 123: the time of the primary pick.\<close>

definition primary_time :: "string \<Rightarrow> pyerr + datetime" where
  "primary_time line =
     (let timestr = replace_char (CHR '' '') ''0'' (slice line 9 24);
          datestr = slice timestr 0 6
      in and_then (py_int (slice timestr 6 8)) (\<lambda>hour.
         and_then (py_int (slice timestr 8 10)) (\<lambda>minute.
         and_then (py_float (slice timestr 10 15)) (\<lambda>seconds.
         and_then (py_int_of_float (float_mul seconds (float_of_small_int 1000))) (\<lambda>milliseconds.
         and_then (strptime_ymd datestr) (\<lambda>t0.
         and_then (timedelta_hmms hour minute milliseconds) (\<lambda>delta.
         datetime_add t0 delta)))))))"

text \<open>Lines 150 to 153: the time of the second pick, from the primary time and \<open>stime\<close>.\<close>

definition second_time :: "datetime \<Rightarrow> string \<Rightarrow> pyerr + datetime" where
  "second_time t stime =
     (let base = replace_second_microsecond t
      in and_then (py_float stime) (\<lambda>x.
         and_then (timedelta_seconds x) (\<lambda>delta.
         datetime_add base delta)))"

text \<open>
  The fields of the primary pick (lines 102 to 106, 113 and 123) and of the second pick
  (lines 134 to 138, 145 and 153), once quality, error and time are known.
\<close>

definition primary_pick :: "string \<Rightarrow> int \<Rightarrow> 'e \<Rightarrow> datetime \<Rightarrow> 'e Pick" where
  "primary_pick line q err t =
     \<lparr>station = strip (slice line 0 4), flag = slice line 4 5, phase = slice line 5 6,
      polarity = slice line 6 7, quality = q, error = err, time = Some t\<rparr>"

definition second_pick :: "string \<Rightarrow> 'e Pick \<Rightarrow> int \<Rightarrow> 'e \<Rightarrow> datetime \<Rightarrow> 'e Pick" where
  "second_pick line pick q2 err2 t2 =
     \<lparr>station = station pick, flag = slice line 36 37, phase = slice line 37 38,
      polarity = slice line 38 39, quality = q2, error = err2, time = Some t2\<rparr>"

text \<open>
  \<^verbatim>\<open>_parse_hypo71_pick_line\<close>. A bare \<^verbatim>\<open>return\<close> gives \<open>None\<close>, the other returns
  give the list \<open>picks\<close>. The \<^verbatim>\<open>try\<close> around \<^verbatim>\<open>stime = line[31:36]\<close> catches
  nothing, since a slice never raises.
\<close>

definition parse_hypo71_pick_line :: "string \<Rightarrow> 'e list \<Rightarrow> pyerr + 'e Pick list option" where
  "parse_hypo71_pick_line raw errors =
     (let line = replace_char newline [] raw;
          stripped_line = strip line
      in if stripped_line \<in> set [''10'', ''''] then Inr None
         else and_then (decoder_signature line) (\<lambda>ok.
           if \<not> ok then Inr None
           else
             and_then (read_quality (slice line 7 8)) (\<lambda>q.
             and_then (getitem errors q) (\<lambda>err.
             and_then (primary_time line) (\<lambda>t.
               (let pick = primary_pick line q err t;
                    picks = (if phase pick = ''P'' then [pick] else []);
                    stime = slice line 31 36
                in if strip stime = [] then Inr (Some picks)
                   else
                     and_then (read_quality (slice line 39 40)) (\<lambda>q2.
                     and_then (getitem errors q2) (\<lambda>err2.
                     and_then (second_time t stime) (\<lambda>t2.
                       Inr (Some (picks @ [second_pick line pick q2 err2 t2])))))))))))"

section \<open>The event segmenter\<close>

text \<open>
  The loop of \<^verbatim>\<open>parse_hypo71_picks\<close> (lines 174 to 180), with its two variables
  \<open>all_picks\<close> and \<open>picks\<close>; the function returns \<open>all_picks\<close> when the lines are used up.
\<close>

fun segment_loop ::
  "string list \<Rightarrow> 'e list \<Rightarrow> 'e Pick list list \<Rightarrow> 'e Pick list \<Rightarrow> pyerr + 'e Pick list list" where
  "segment_loop [] errors all_picks picks = Inr all_picks"
| "segment_loop (line # rest) errors all_picks picks =
     (let all_picks1 = (if strip line \<in> set [''10''] then all_picks @ [picks] else all_picks);
          picks1 = (if strip line \<in> set [''10''] then [] else picks)
      in case parse_hypo71_pick_line line errors of
           Inl e \<Rightarrow> Inl e
         | Inr None \<Rightarrow> segment_loop rest errors all_picks1 picks1
         | Inr (Some ps) \<Rightarrow>
             segment_loop rest errors all_picks1 (if ps = [] then picks1 else picks1 @ ps))"

text \<open>
  \<^verbatim>\<open>parse_hypo71_picks\<close>: a TypeError of the validator becomes \<^verbatim>\<open>sys.exit(err)\<close>;
  both passes read the same lines.
\<close>

definition parse_hypo71_picks ::
  "string \<Rightarrow> string list \<Rightarrow> 'e list \<Rightarrow> pyerr + 'e Pick list list" where
  "parse_hypo71_picks pick_file lines errors =
     (case is_hypo71_picks pick_file lines of
        Inl e \<Rightarrow> (case e of TypeError msg \<Rightarrow> Inl (SystemExit msg) | _ \<Rightarrow> Inl e)
      | Inr u \<Rightarrow> segment_loop lines errors [] [])"

section \<open>The command line and the run\<close>

text \<open>\<^verbatim>\<open>s.split(sep)\<close> for a one-character separator.\<close>

fun split_on :: "char \<Rightarrow> string \<Rightarrow> string list" where
  "split_on sep [] = [[]]"
| "split_on sep (c # cs) =
     (if c = sep then [] # split_on sep cs
      else (case split_on sep cs of
              [] \<Rightarrow> [[c]]
            | w # ws \<Rightarrow> (c # w) # ws))"

text \<open>A list comprehension whose element expression may raise: the first error wins.\<close>

fun collect :: "('a \<Rightarrow> pyerr + 'b) \<Rightarrow> 'a list \<Rightarrow> pyerr + 'b list" where
  "collect f [] = Inr []"
| "collect f (x # xs) =
     and_then (f x) (\<lambda>y. and_then (collect f xs) (\<lambda>ys. Inr (y # ys)))"

text \<open>
  Lines 203 to 211 of \<^verbatim>\<open>parse_args\<close>, on the string given to \<^verbatim>\<open>--errors\<close>;
  \<^verbatim>\<open>parser.error\<close> ends the run with its message. The string comes from the command
  line and may hold any character, and \<^verbatim>\<open>float\<close> reads more than ASCII there (other
  decimal digits, other white space): \<open>py_float\<close> is \<^verbatim>\<open>float\<close> on ASCII text only, so
  here \<^verbatim>\<open>float\<close> is the parameter \<open>to_float\<close>.
\<close>

definition parse_args :: "(string \<Rightarrow> pyerr + 'f) \<Rightarrow> string \<Rightarrow> pyerr + 'f list" where
  "parse_args to_float errors_opt =
     (let fields = split_on (CHR '','') errors_opt
      in case collect (\<lambda>i. and_then (getitem fields i) to_float) [0, 1, 2, 3, 4] of
           Inr errors \<Rightarrow> Inr errors
         | Inl e \<Rightarrow>
             if e = IndexError then Inl (ParserError ''You must specify 5 values for --errors'')
             else if e = ValueError then Inl (ParserError ''Invalid values for --errors'')
             else Inl e)"

text \<open>
  The writes of \<^verbatim>\<open>run\<close> (lines 224 to 227): what has been written so far, and the
  exception that stopped the loop, if any.
\<close>

fun write_picks ::
  "('e \<Rightarrow> string) \<Rightarrow> 'e Pick list \<Rightarrow> string list \<Rightarrow> string list \<times> pyerr option" where
  "write_picks str_error [] out = (out, None)"
| "write_picks str_error (p # ps) out =
     (case to_nlloc str_error p of
        Inl e \<Rightarrow> (out, Some e)
      | Inr l \<Rightarrow> write_picks str_error ps (out @ [l @ [newline]]))"

fun write_events ::
  "('e \<Rightarrow> string) \<Rightarrow> 'e Pick list list \<Rightarrow> string list \<Rightarrow> string list \<times> pyerr option" where
  "write_events str_error [] out = (out, None)"
| "write_events str_error (picks # rest) out =
     (case write_picks str_error picks out of
        (out1, Some e) \<Rightarrow> (out1, Some e)
      | (out1, None) \<Rightarrow> write_events str_error rest (out1 @ [[newline, newline]]))"

text \<open>
  \<^verbatim>\<open>run\<close>, given the \<^verbatim>\<open>--errors\<close> string, the name and the lines of the pick file:
  the strings written to the output, in order, and the exception that ended the run, if
  any. \<open>to_float\<close> is \<^verbatim>\<open>float\<close> on the text of the command line and \<open>str_float\<close> is
  Python's \<^verbatim>\<open>str\<close> on a float.
\<close>

definition run ::
  "(string \<Rightarrow> pyerr + 'f) \<Rightarrow> ('f \<Rightarrow> string) \<Rightarrow> string \<Rightarrow> string \<Rightarrow> string list
     \<Rightarrow> string list \<times> pyerr option" where
  "run to_float str_float errors_opt pick_file lines =
     (case parse_args to_float errors_opt of
        Inl e \<Rightarrow> ([], Some e)
      | Inr errors \<Rightarrow>
          (case parse_hypo71_picks pick_file lines errors of
             Inl e \<Rightarrow> ([], Some e)
           | Inr all_picks \<Rightarrow> write_events str_float all_picks []))"

section \<open>Notions used in the statements\<close>

text \<open>A float whose mantissa is not negative, as every float this program makes.\<close>

definition float_wf :: "pyfloat \<Rightarrow> bool" where
  "float_wf x = (case x of Finite s m e \<Rightarrow> 0 \<le> m | Infinite s \<Rightarrow> True | NaN \<Rightarrow> True)"

text \<open>
  The words of the specification for the segmenter: a separator is a line that is
  \<open>10\<close> once its whitespace is stripped, and the separators cut the lines of a file into
  groups, one more than there are separators. \<open>picks_of_lines\<close> are the picks the
  decoder returns for the lines of one group, in order.
\<close>

definition is_separator :: "string \<Rightarrow> bool" where
  "is_separator raw = (strip raw \<in> set [''10''])"

fun split_events :: "string list \<Rightarrow> string list list" where
  "split_events [] = [[]]"
| "split_events (l # ls) =
     (if is_separator l then [] # split_events ls
      else (l # hd (split_events ls)) # tl (split_events ls))"

definition picks_of_line :: "string \<Rightarrow> 'e list \<Rightarrow> 'e Pick list" where
  "picks_of_line raw errors =
     (case parse_hypo71_pick_line raw errors of
        Inl e \<Rightarrow> []
      | Inr None \<Rightarrow> []
      | Inr (Some ps) \<Rightarrow> ps)"

definition picks_of_lines :: "string list \<Rightarrow> 'e list \<Rightarrow> 'e Pick list" where
  "picks_of_lines ls errors = concat (map (\<lambda>l. picks_of_line l errors) ls)"

text \<open>
  A field of a formatted date: \<open>s\<close> is the decimal numeral of \<open>n\<close> in exactly \<open>w\<close>
  digits, zeros in front.
\<close>

definition numeral_field :: "nat \<Rightarrow> int \<Rightarrow> string \<Rightarrow> bool" where
  "numeral_field w n s = (length s = w \<and> list_all isdigit s \<and> digits_value s = n)"

section \<open>Properties\<close>

subsection \<open>Results that raise or return\<close>

lemma and_then_Inr_iff:
  "and_then r f = Inr y \<longleftrightarrow> (\<exists>x. r = Inr x \<and> f x = Inr y)"
  by (cases r) (simp_all add: and_then_def)

lemma and_then_Inr [simp]: "and_then (Inr x) f = f x"
  by (simp add: and_then_def)

lemma and_then_Inl [simp]: "and_then (Inl e) f = Inl e"
  by (simp add: and_then_def)

subsection \<open>The validator and the decoder test the same signature\<close>

lemma signatures_agree: "decoder_signature line = validator_signature line"
  by (simp add: decoder_signature_def validator_signature_def)

lemma validated_line:
  assumes "is_hypo71_picks pick_file lines = Inr ()" and "raw \<in> set lines"
  shows "strip (replace_char newline [] raw) \<in> set [''10'', '''']
         \<or> validator_signature (replace_char newline [] raw) = Inr True"
  using assms
proof (induction lines)
  case Nil
  then show ?case by simp
next
  case (Cons l ls)
  from Cons.prems(1) have rest: "is_hypo71_picks pick_file ls = Inr ()"
    by (auto simp: Let_def and_then_Inr_iff split: if_splits)
  from Cons.prems(1) have this_line:
    "strip (replace_char newline [] l) \<in> set [''10'', '''']
     \<or> validator_signature (replace_char newline [] l) = Inr True"
    by (auto simp: Let_def and_then_Inr_iff split: if_splits)
  from Cons.prems(2) consider "raw = l" | "raw \<in> set ls"
    by auto
  then show ?case
  proof cases
    case 1
    with this_line show ?thesis by simp
  next
    case 2
    with Cons.IH rest show ?thesis by simp
  qed
qed

text \<open>
  Claim C10. The validator's accept condition and the decoder's re-check are the same
  test (position 5 is \<open>P\<close> or blank, positions 9 and 20 are decimal digits), applied
  after the same removal of the newline and the same skipping of blank and separator
  lines. So for every line of a file that passed validation the decoder's own test is
  true unless the line is blank or a separator, and the decoder returns nothing
  (\<open>None\<close>) for that line exactly when it skips it as blank or separator: the branch
  that returns nothing because the signature fails is never taken.
\<close>

theorem validated_line_is_never_rejected_by_decoder:
  assumes "is_hypo71_picks pick_file lines = Inr ()" and "raw \<in> set lines"
  shows "(\<forall>l. decoder_signature l = validator_signature l)
         \<and> (strip (replace_char newline [] raw) \<in> set [''10'', '''']
            \<or> decoder_signature (replace_char newline [] raw) = Inr True)
         \<and> (parse_hypo71_pick_line raw errors = Inr None
            \<longleftrightarrow> strip (replace_char newline [] raw) \<in> set [''10'', ''''])"
proof -
  let ?line = "replace_char newline [] raw"
  from validated_line [OF assms]
  have test: "strip ?line \<in> set [''10'', ''''] \<or> decoder_signature ?line = Inr True"
    by (simp add: signatures_agree)
  have "parse_hypo71_pick_line raw errors = Inr None \<longleftrightarrow> strip ?line \<in> set [''10'', '''']"
  proof
    assume none: "parse_hypo71_pick_line raw errors = Inr None"
    show "strip ?line \<in> set [''10'', '''']"
    proof (rule ccontr)
      assume ns: "strip ?line \<notin> set [''10'', '''']"
      with test have sig: "decoder_signature ?line = Inr True"
        by blast
      from none ns sig have fields:
        "and_then (read_quality (slice ?line 7 8)) (\<lambda>q.
         and_then (getitem errors q) (\<lambda>err.
         and_then (primary_time ?line) (\<lambda>t.
           (let pick = primary_pick ?line q err t;
                picks = (if phase pick = ''P'' then [pick] else []);
                stime = slice ?line 31 36
            in if strip stime = [] then Inr (Some picks)
               else
                 and_then (read_quality (slice ?line 39 40)) (\<lambda>q2.
                 and_then (getitem errors q2) (\<lambda>err2.
                 and_then (second_time t stime) (\<lambda>t2.
                   Inr (Some (picks @ [second_pick ?line pick q2 err2 t2])))))))))
         = Inr None"
        by (simp add: parse_hypo71_pick_line_def Let_def)
      then show False
        by (auto simp: and_then_Inr_iff Let_def split: if_splits)
    qed
  next
    assume "strip ?line \<in> set [''10'', '''']"
    then show "parse_hypo71_pick_line raw errors = Inr None"
      by (simp add: parse_hypo71_pick_line_def Let_def)
  qed
  with test show ?thesis
    by (simp add: signatures_agree)
qed

theorem validated_line_is_never_rejected_by_decoder_witness:
  "is_hypo71_picks ''f.pick''
     [''STA  P 1 991231123456.78'' @ [newline], ''10'' @ [newline]] = Inr ()
   \<and> strip (replace_char newline [] (''STA  P 1 991231123456.78'' @ [newline]))
       \<notin> set [''10'', '''']
   \<and> decoder_signature (replace_char newline [] (''STA  P 1 991231123456.78'' @ [newline]))
       = Inr True
   \<and> parse_hypo71_pick_line (''STA  P 1 991231123456.78'' @ [newline])
       [''0.01'', ''0.02'', ''0.03'', ''0.04'', ''0.05''] \<noteq> Inr None
   \<and> strip (replace_char newline [] (''10'' @ [newline])) = ''10''
   \<and> parse_hypo71_pick_line (''10'' @ [newline])
       [''0.01'', ''0.02'', ''0.03'', ''0.04'', ''0.05''] = Inr None"
proof -
  let ?tbl = "[''0.01'', ''0.02'', ''0.03'', ''0.04'', ''0.05'']"
  have valid: "is_hypo71_picks ''f.pick''
      [''STA  P 1 991231123456.78'' @ [newline], ''10'' @ [newline]] = Inr ()"
    by code_simp
  have mem: "''STA  P 1 991231123456.78'' @ [newline]
      \<in> set [''STA  P 1 991231123456.78'' @ [newline], ''10'' @ [newline]]"
    by simp
  have mem': "''10'' @ [newline]
      \<in> set [''STA  P 1 991231123456.78'' @ [newline], ''10'' @ [newline]]"
    by simp
  have not_skipped:
    "strip (replace_char newline [] (''STA  P 1 991231123456.78'' @ [newline]))
       \<notin> set [''10'', '''']"
    by code_simp
  have skipped: "strip (replace_char newline [] (''10'' @ [newline])) = ''10''"
    by code_simp
  from validated_line_is_never_rejected_by_decoder [OF valid mem, of ?tbl] not_skipped
  have pick_line:
    "decoder_signature (replace_char newline [] (''STA  P 1 991231123456.78'' @ [newline]))
       = Inr True"
    "parse_hypo71_pick_line (''STA  P 1 991231123456.78'' @ [newline]) ?tbl \<noteq> Inr None"
    by blast+
  from validated_line_is_never_rejected_by_decoder [OF valid mem', of ?tbl] skipped
  have "parse_hypo71_pick_line (''10'' @ [newline]) ?tbl = Inr None"
    by simp
  with valid not_skipped pick_line skipped show ?thesis
    by (intro conjI)
qed

subsection \<open>A line too short for the tested offsets\<close>

text \<open>
  Claim C4. A non-blank, non-separator line that fails the signature, also one too short
  to reach offset 5, 9 or 20, makes validation fail with the format error that names
  the file, never with an indexing fault. The code does not do this for a short line:
  on the file whose only line is \<open>abc\<close>, \<^verbatim>\<open>line[5]\<close> raises IndexError, which
  \<^verbatim>\<open>parse_hypo71_picks\<close> does not catch (it catches TypeError only), while a line long
  enough to be tested and failing the test gives the exit with the file's name.
\<close>

theorem validator_short_line_index_error:
  "is_hypo71_picks ''f.pick'' [''abc'' @ [newline]] = Inl IndexError
   \<and> parse_hypo71_picks ''f.pick'' [''abc'' @ [newline]] [''0.01'', ''0.02'', ''0.03'', ''0.04'', ''0.05'']
       = Inl IndexError
   \<and> parse_hypo71_picks ''f.pick'' [''abcdefghi'' @ [newline]] [''0.01'', ''0.02'', ''0.03'', ''0.04'', ''0.05'']
       = Inl (SystemExit ''f.pick: Not a hypo71 phase file'')"
  by code_simp


subsection \<open>The quality character\<close>

lemma char_eq_code: "(c = d) = ((of_char c :: nat) = of_char d)"
  by (metis char_of_char)

lemma digit_value_range: "isdigit c \<Longrightarrow> 0 \<le> digit_value c \<and> digit_value c \<le> 9"
  by (simp add: isdigit_def digit_value_def)

lemma digit_value_low:
  assumes "isdigit c" and "[c] \<notin> set [''5'', ''6'', ''7'', ''8'', ''9'']"
  shows "digit_value c \<le> 4"
  using assms by (simp add: isdigit_def digit_value_def char_eq_code)

lemma py_int_digit: "isdigit c \<Longrightarrow> py_int [c] = Inr (digit_value c)"
  by (auto simp: py_int_def c_strip_def c_isspace_def take_sign_def isdigit_def
      digits_value_def)

lemma py_int_nondigit: "\<not> isdigit c \<Longrightarrow> py_int [c] = Inl ValueError"
  by (auto simp: py_int_def c_strip_def c_isspace_def take_sign_def isdigit_def
      digits_value_def)

lemma py_int_empty: "py_int [] = Inl ValueError"
  by (simp add: py_int_def c_strip_def take_sign_def)

lemma read_quality_short:
  assumes "length s \<le> 1"
  shows "read_quality s = Inr (if s \<noteq> [] \<and> isdigit (hd s) then digit_value (hd s) else 4)"
proof (cases s)
  case Nil
  then show ?thesis by (simp add: read_quality_def py_int_empty)
next
  case (Cons c cs)
  with assms have "s = [c]" by simp
  then show ?thesis
    by (cases "isdigit c") (simp_all add: read_quality_def py_int_digit py_int_nondigit)
qed

lemma slice_one: "length (slice s i (Suc i)) \<le> 1"
  by (simp add: slice_def)

lemma read_quality_field:
  "read_quality (slice line i (Suc i))
     = Inr (if slice line i (Suc i) \<noteq> [] \<and> isdigit (hd (slice line i (Suc i)))
            then digit_value (hd (slice line i (Suc i))) else 4)"
  by (rule read_quality_short) (rule slice_one)

lemma read_quality_field_range:
  assumes "read_quality (slice line i (Suc i)) = Inr q"
  shows "0 \<le> q \<and> q \<le> 9"
  using assms digit_value_range [of "hd (slice line i (Suc i))"]
  by (auto simp: read_quality_field split: if_splits)

lemma read_quality_field_low:
  assumes "slice line i (Suc i) \<notin> set [''5'', ''6'', ''7'', ''8'', ''9'']"
  shows "\<exists>q. read_quality (slice line i (Suc i)) = Inr q \<and> 0 \<le> q \<and> q \<le> 4"
proof (cases "slice line i (Suc i) \<noteq> [] \<and> isdigit (hd (slice line i (Suc i)))")
  case True
  have "length (slice line i (Suc i)) \<le> 1"
    by (rule slice_one)
  with True obtain c where c: "slice line i (Suc i) = [c]"
    by (cases "slice line i (Suc i)") auto
  with True assms have d: "isdigit c" and "[c] \<notin> set [''5'', ''6'', ''7'', ''8'', ''9'']"
    by simp_all
  then have "0 \<le> digit_value c \<and> digit_value c \<le> 4"
    using digit_value_range digit_value_low by blast
  moreover from d have "read_quality [c] = Inr (digit_value c)"
    by (simp add: read_quality_def py_int_digit)
  ultimately show ?thesis
    unfolding c by blast
next
  case False
  then show ?thesis
    by (auto simp: read_quality_field)
qed

lemma getitem_in_range:
  "0 \<le> i \<Longrightarrow> i < int (length xs) \<Longrightarrow> getitem xs i = Inr (xs ! nat i)"
  by (simp add: getitem_def)

lemma getitem_nonneg_Inr:
  "0 \<le> i \<Longrightarrow> getitem xs i = Inr x \<Longrightarrow> i < int (length xs) \<and> x = xs ! nat i"
  by (auto simp: getitem_def split: if_splits)

subsection \<open>The ways through the decoder\<close>

lemma decoder_skip:
  "strip (replace_char newline [] raw) \<in> set [''10'', '''']
   \<Longrightarrow> parse_hypo71_pick_line raw errors = Inr None"
  by (simp add: parse_hypo71_pick_line_def Let_def)

lemma decoder_rejected:
  assumes "strip (replace_char newline [] raw) \<notin> set [''10'', '''']"
    and "decoder_signature (replace_char newline [] raw) = Inr False"
  shows "parse_hypo71_pick_line raw errors = Inr None"
  using assms by (simp add: parse_hypo71_pick_line_def Let_def)

lemma decoder_signature_fault:
  assumes "strip (replace_char newline [] raw) \<notin> set [''10'', '''']"
    and "decoder_signature (replace_char newline [] raw) = Inl e"
  shows "parse_hypo71_pick_line raw errors = Inl e"
  using assms by (simp add: parse_hypo71_pick_line_def Let_def)

lemma decoder_time_fault:
  assumes "strip (replace_char newline [] raw) \<notin> set [''10'', '''']"
    and "decoder_signature (replace_char newline [] raw) = Inr True"
    and "read_quality (slice (replace_char newline [] raw) 7 8) = Inr q"
    and "getitem errors q = Inr err"
    and "primary_time (replace_char newline [] raw) = Inl e"
  shows "parse_hypo71_pick_line raw errors = Inl e"
  using assms by (simp add: parse_hypo71_pick_line_def Let_def)

lemma decoder_one_field:
  assumes "strip (replace_char newline [] raw) \<notin> set [''10'', '''']"
    and "decoder_signature (replace_char newline [] raw) = Inr True"
    and "read_quality (slice (replace_char newline [] raw) 7 8) = Inr q"
    and "getitem errors q = Inr err"
    and "primary_time (replace_char newline [] raw) = Inr t"
    and "strip (slice (replace_char newline [] raw) 31 36) = []"
  shows "parse_hypo71_pick_line raw errors =
     Inr (Some (if slice (replace_char newline [] raw) 5 6 = ''P''
                then [primary_pick (replace_char newline [] raw) q err t] else []))"
  using assms by (simp add: parse_hypo71_pick_line_def Let_def primary_pick_def)

lemma decoder_two_fields:
  assumes "strip (replace_char newline [] raw) \<notin> set [''10'', '''']"
    and "decoder_signature (replace_char newline [] raw) = Inr True"
    and "read_quality (slice (replace_char newline [] raw) 7 8) = Inr q"
    and "getitem errors q = Inr err"
    and "primary_time (replace_char newline [] raw) = Inr t"
    and "strip (slice (replace_char newline [] raw) 31 36) \<noteq> []"
    and "read_quality (slice (replace_char newline [] raw) 39 40) = Inr q2"
    and "getitem errors q2 = Inr err2"
    and "second_time t (slice (replace_char newline [] raw) 31 36) = Inr t2"
  shows "parse_hypo71_pick_line raw errors =
     Inr (Some ((if slice (replace_char newline [] raw) 5 6 = ''P''
                 then [primary_pick (replace_char newline [] raw) q err t] else [])
                @ [second_pick (replace_char newline [] raw)
                     (primary_pick (replace_char newline [] raw) q err t) q2 err2 t2]))"
  using assms by (simp add: parse_hypo71_pick_line_def Let_def primary_pick_def)

text \<open>What a returned list of picks says about the line.\<close>

lemma decoder_Some_D:
  assumes "parse_hypo71_pick_line raw errors = Inr (Some picks)"
  shows "\<exists>q err t.
      read_quality (slice (replace_char newline [] raw) 7 8) = Inr q
      \<and> getitem errors q = Inr err
      \<and> primary_time (replace_char newline [] raw) = Inr t
      \<and> (picks = (if slice (replace_char newline [] raw) 5 6 = ''P''
                   then [primary_pick (replace_char newline [] raw) q err t] else [])
         \<or> (\<exists>q2 err2 t2.
               read_quality (slice (replace_char newline [] raw) 39 40) = Inr q2
               \<and> getitem errors q2 = Inr err2
               \<and> second_time t (slice (replace_char newline [] raw) 31 36) = Inr t2
               \<and> picks = (if slice (replace_char newline [] raw) 5 6 = ''P''
                          then [primary_pick (replace_char newline [] raw) q err t] else [])
                    @ [second_pick (replace_char newline [] raw)
                         (primary_pick (replace_char newline [] raw) q err t) q2 err2 t2]))"
proof -
  let ?line = "replace_char newline [] raw"
  from assms have ns: "strip ?line \<notin> set [''10'', '''']"
    by (auto simp: parse_hypo71_pick_line_def Let_def split: if_splits)
  with assms have sig: "decoder_signature ?line = Inr True"
    by (cases "decoder_signature ?line")
      (auto simp: parse_hypo71_pick_line_def Let_def split: if_splits)
  from assms ns sig obtain q where q: "read_quality (slice ?line 7 8) = Inr q"
    by (cases "read_quality (slice ?line 7 8)")
      (auto simp: parse_hypo71_pick_line_def Let_def)
  from assms ns sig q obtain err where err: "getitem errors q = Inr err"
    by (cases "getitem errors q") (auto simp: parse_hypo71_pick_line_def Let_def)
  from assms ns sig q err obtain t where t: "primary_time ?line = Inr t"
    by (cases "primary_time ?line") (auto simp: parse_hypo71_pick_line_def Let_def)
  show ?thesis
  proof (cases "strip (slice ?line 31 36) = []")
    case True
    from decoder_one_field [OF ns sig q err t True] assms q err t show ?thesis
      by auto
  next
    case False
    from assms ns sig q err t False
    obtain q2 where q2: "read_quality (slice ?line 39 40) = Inr q2"
      by (cases "read_quality (slice ?line 39 40)")
        (auto simp: parse_hypo71_pick_line_def Let_def)
    from assms ns sig q err t False q2
    obtain err2 where err2: "getitem errors q2 = Inr err2"
      by (cases "getitem errors q2") (auto simp: parse_hypo71_pick_line_def Let_def)
    from assms ns sig q err t False q2 err2
    obtain t2 where t2: "second_time t (slice ?line 31 36) = Inr t2"
      by (cases "second_time t (slice ?line 31 36)")
        (auto simp: parse_hypo71_pick_line_def Let_def)
    from decoder_two_fields [OF ns sig q err t False q2 err2 t2] assms q err t q2 err2 t2
    show ?thesis
      by auto
  qed
qed


lemma slice_length: "length (slice s i j) \<le> j - i"
  by (simp add: slice_def)

lemma read_quality_range:
  assumes "length s \<le> 1" and "read_quality s = Inr q"
  shows "0 \<le> q \<and> q \<le> 9"
  using assms digit_value_range [of "hd s"]
  by (auto simp: read_quality_short split: if_splits)

lemma read_quality_low:
  assumes "length s \<le> 1" and "s \<notin> set [''5'', ''6'', ''7'', ''8'', ''9'']"
  shows "\<exists>q. read_quality s = Inr q \<and> 0 \<le> q \<and> q \<le> 4"
proof (cases "s \<noteq> [] \<and> isdigit (hd s)")
  case True
  with assms(1) obtain c where c: "s = [c]"
    by (cases s) auto
  with True assms(2) have "isdigit c" and "[c] \<notin> set [''5'', ''6'', ''7'', ''8'', ''9'']"
    by simp_all
  then have "0 \<le> digit_value c \<and> digit_value c \<le> 4"
    using digit_value_range digit_value_low by blast
  with c True assms(1) show ?thesis
    by (simp add: read_quality_short)
next
  case False
  with assms(1) show ?thesis
    by (auto simp: read_quality_short)
qed

lemma quality_field_low:
  assumes "length errors = 5" and "slice line i j \<notin> set [''5'', ''6'', ''7'', ''8'', ''9'']"
    and "j - i \<le> 1"
  shows "\<exists>q. read_quality (slice line i j) = Inr q \<and> 0 \<le> q \<and> q \<le> 4
             \<and> getitem errors q = Inr (errors ! nat q)"
proof -
  have "length (slice line i j) \<le> 1"
    using slice_length [of line i j] assms(3) by simp
  from read_quality_low [OF this assms(2)]
  obtain q where q: "read_quality (slice line i j) = Inr q" "0 \<le> q" "q \<le> 4"
    by blast
  with assms(1) have "getitem errors q = Inr (errors ! nat q)"
    by (simp add: getitem_def)
  with q show ?thesis
    by blast
qed

subsection \<open>Quality and error of the picks a line gives\<close>

text \<open>
  Every pick the decoder returns has a quality from 0 to 4 and the error the table
  holds at that index.
\<close>

lemma emitted_pick_quality_error:
  assumes len: "length errors = 5"
    and ret: "parse_hypo71_pick_line raw errors = Inr (Some picks)"
    and mem: "p \<in> set picks"
  shows "0 \<le> quality p \<and> quality p \<le> 4 \<and> error p = errors ! nat (quality p)"
proof -
  let ?line = "replace_char newline [] raw"
  have l1: "length (slice ?line 7 8) \<le> 1" and l2: "length (slice ?line 39 40) \<le> 1"
    using slice_length [of ?line 7 8] slice_length [of ?line 39 40] by simp_all
  from decoder_Some_D [OF ret] obtain q err t where
    q: "read_quality (slice ?line 7 8) = Inr q" and
    err: "getitem errors q = Inr err" and
    alt: "picks = (if slice ?line 5 6 = ''P'' then [primary_pick ?line q err t] else [])
      \<or> (\<exists>q2 err2 t2.
            read_quality (slice ?line 39 40) = Inr q2
            \<and> getitem errors q2 = Inr err2
            \<and> picks = (if slice ?line 5 6 = ''P'' then [primary_pick ?line q err t] else [])
                 @ [second_pick ?line (primary_pick ?line q err t) q2 err2 t2])"
    by blast
  from read_quality_range [OF l1 q] have q0: "0 \<le> q"
    by simp
  from getitem_nonneg_Inr [OF q0 err] len have q4: "q \<le> 4" and e: "err = errors ! nat q"
    by simp_all
  have first: "0 \<le> quality (primary_pick ?line q err t :: 'a Pick)
      \<and> quality (primary_pick ?line q err t :: 'a Pick) \<le> 4
      \<and> error (primary_pick ?line q err t) = errors ! nat (quality (primary_pick ?line q err t :: 'a Pick))"
    using q0 q4 e by (simp add: primary_pick_def)
  from alt show ?thesis
  proof
    assume "picks = (if slice ?line 5 6 = ''P'' then [primary_pick ?line q err t] else [])"
    with mem have "p = primary_pick ?line q err t"
      by (simp split: if_splits)
    with first show ?thesis
      by simp
  next
    assume "\<exists>q2 err2 t2.
      read_quality (slice ?line 39 40) = Inr q2
      \<and> getitem errors q2 = Inr err2
      \<and> picks = (if slice ?line 5 6 = ''P'' then [primary_pick ?line q err t] else [])
           @ [second_pick ?line (primary_pick ?line q err t) q2 err2 t2]"
    then obtain q2 err2 t2 where
      q2: "read_quality (slice ?line 39 40) = Inr q2" and
      err2: "getitem errors q2 = Inr err2" and
      picks: "picks = (if slice ?line 5 6 = ''P'' then [primary_pick ?line q err t] else [])
           @ [second_pick ?line (primary_pick ?line q err t) q2 err2 t2]"
      by blast
    from read_quality_range [OF l2 q2] have q20: "0 \<le> q2"
      by simp
    from getitem_nonneg_Inr [OF q20 err2] len
    have q24: "q2 \<le> 4" and e2: "err2 = errors ! nat q2"
      by simp_all
    from mem picks consider "p = primary_pick ?line q err t"
      | "p = second_pick ?line (primary_pick ?line q err t) q2 err2 t2"
      by (auto split: if_splits)
    then show ?thesis
    proof cases
      case 1
      with first show ?thesis by simp
    next
      case 2
      with q20 q24 e2 show ?thesis
        by (simp add: second_pick_def)
    qed
  qed
qed

text \<open>
  Claim C1. With a 5-element error table every emitted pick has a quality in [0,4],
  which is 4 whenever the quality field is not an in-range integer (empty, a letter, out
  of range), and its error is \<open>errors[quality]\<close>, for the primary pick (character 7) as
  for the second pick (character 39). The code does this for an empty field and for a
  character that is no digit, but not for the digits 5 to 9: \<^verbatim>\<open>int\<close> reads them,
  nothing replaces the value by 4, and \<^verbatim>\<open>errors[quality]\<close> raises IndexError, which
  nothing catches. Both quality fields do so on the lines below.
\<close>

theorem quality_digit_above_four_raises:
  "parse_hypo71_pick_line ''STA  P 7 991231123456.78''
     [''0.01'', ''0.02'', ''0.03'', ''0.04'', ''0.05''] = Inl IndexError
   \<and> parse_hypo71_pick_line ''STA  P 1 991231123456.78       12.34 S 9''
       [''0.01'', ''0.02'', ''0.03'', ''0.04'', ''0.05''] = Inl IndexError"
  by code_simp

subsection \<open>When the decoder returns and when it raises\<close>

text \<open>
  Claim C2 says that the decoder raises no error on any raw line. It does on a line whose
  primary time field does not decode: 31 February is no date.
\<close>

theorem decoder_raises_on_impossible_date:
  "parse_hypo71_pick_line ''STA  P 0 990231123456.78''
     [''0.01'', ''0.02'', ''0.03'', ''0.04'', ''0.05''] = Inl ValueError"
  by code_simp

text \<open>
  Claim C2, amended. For every raw line and every 5-element error table: a blank line, a
  separator line and a line that fails the signature test give \<open>None\<close>; a line that
  passes the test, whose quality characters are not digits from 5 to 9, gives a list of
  at most one pick when its primary time field decodes and its stime field is blank, and
  a list of one or two picks when its stime field decodes too. A primary time field that
  does not decode is not absorbed: the error it raises is the decoder's.
\<close>

theorem decoder_returns_or_time_fault:
  fixes errors :: "'e list"
  assumes "length errors = 5" and "line = replace_char newline [] raw"
  shows
    "(strip line \<in> set [''10'', ''''] \<longrightarrow> parse_hypo71_pick_line raw errors = Inr None)
     \<and> (strip line \<notin> set [''10'', ''''] \<and> decoder_signature line = Inr False
          \<longrightarrow> parse_hypo71_pick_line raw errors = Inr None)
     \<and> (strip line \<notin> set [''10'', ''''] \<and> decoder_signature line = Inr True
          \<and> slice line 7 8 \<notin> set [''5'', ''6'', ''7'', ''8'', ''9'']
          \<and> primary_time line = Inl e
          \<longrightarrow> parse_hypo71_pick_line raw errors = Inl e)
     \<and> (strip line \<notin> set [''10'', ''''] \<and> decoder_signature line = Inr True
          \<and> slice line 7 8 \<notin> set [''5'', ''6'', ''7'', ''8'', ''9'']
          \<and> primary_time line = Inr t
          \<and> strip (slice line 31 36) = []
          \<longrightarrow> (\<exists>picks. parse_hypo71_pick_line raw errors = Inr (Some picks)
                \<and> length picks \<le> 1))
     \<and> (strip line \<notin> set [''10'', ''''] \<and> decoder_signature line = Inr True
          \<and> slice line 7 8 \<notin> set [''5'', ''6'', ''7'', ''8'', ''9'']
          \<and> primary_time line = Inr t
          \<and> strip (slice line 31 36) \<noteq> []
          \<and> slice line 39 40 \<notin> set [''5'', ''6'', ''7'', ''8'', ''9'']
          \<and> second_time t (slice line 31 36) = Inr t2
          \<longrightarrow> (\<exists>picks. parse_hypo71_pick_line raw errors = Inr (Some picks)
                \<and> 1 \<le> length picks \<and> length picks \<le> 2))"
proof (intro conjI impI)
  assume "strip line \<in> set [''10'', '''']"
  then show "parse_hypo71_pick_line raw errors = Inr None"
    unfolding assms(2) by (rule decoder_skip)
next
  assume a: "strip line \<notin> set [''10'', ''''] \<and> decoder_signature line = Inr False"
  from a have ns: "strip line \<notin> set [''10'', '''']"
    by (rule conjunct1)
  from a have sig: "decoder_signature line = Inr False"
    by (rule conjunct2)
  show "parse_hypo71_pick_line raw errors = Inr None"
    by (rule decoder_rejected [OF ns [unfolded assms(2)] sig [unfolded assms(2)]])
next
  assume a: "strip line \<notin> set [''10'', ''''] \<and> decoder_signature line = Inr True
    \<and> slice line 7 8 \<notin> set [''5'', ''6'', ''7'', ''8'', ''9'']
    \<and> primary_time line = Inl e"
  from a have ns: "strip line \<notin> set [''10'', '''']"
    and sig: "decoder_signature line = Inr True"
    and qf: "slice line 7 8 \<notin> set [''5'', ''6'', ''7'', ''8'', ''9'']"
    and pt: "primary_time line = Inl e"
    by simp_all
  from quality_field_low [OF assms(1) qf]
  obtain q where q: "read_quality (slice line 7 8) = Inr q"
    and err: "getitem errors q = Inr (errors ! nat q)"
    by auto
  show "parse_hypo71_pick_line raw errors = Inl e"
    by (rule decoder_time_fault [OF ns [unfolded assms(2)] sig [unfolded assms(2)]
          q [unfolded assms(2)] err pt [unfolded assms(2)]])
next
  assume a: "strip line \<notin> set [''10'', ''''] \<and> decoder_signature line = Inr True
    \<and> slice line 7 8 \<notin> set [''5'', ''6'', ''7'', ''8'', ''9'']
    \<and> primary_time line = Inr t
    \<and> strip (slice line 31 36) = []"
  from a have ns: "strip line \<notin> set [''10'', '''']"
    and sig: "decoder_signature line = Inr True"
    and qf: "slice line 7 8 \<notin> set [''5'', ''6'', ''7'', ''8'', ''9'']"
    and pt: "primary_time line = Inr t"
    and st: "strip (slice line 31 36) = []"
    by simp_all
  from quality_field_low [OF assms(1) qf]
  obtain q where q: "read_quality (slice line 7 8) = Inr q"
    and err: "getitem errors q = Inr (errors ! nat q)"
    by auto
  show "\<exists>picks. parse_hypo71_pick_line raw errors = Inr (Some picks) \<and> length picks \<le> 1"
    using decoder_one_field [OF ns [unfolded assms(2)] sig [unfolded assms(2)]
        q [unfolded assms(2)] err pt [unfolded assms(2)] st [unfolded assms(2)]]
    by simp
next
  assume a: "strip line \<notin> set [''10'', ''''] \<and> decoder_signature line = Inr True
    \<and> slice line 7 8 \<notin> set [''5'', ''6'', ''7'', ''8'', ''9'']
    \<and> primary_time line = Inr t
    \<and> strip (slice line 31 36) \<noteq> []
    \<and> slice line 39 40 \<notin> set [''5'', ''6'', ''7'', ''8'', ''9'']
    \<and> second_time t (slice line 31 36) = Inr t2"
  from a have ns: "strip line \<notin> set [''10'', '''']"
    and sig: "decoder_signature line = Inr True"
    and qf: "slice line 7 8 \<notin> set [''5'', ''6'', ''7'', ''8'', ''9'']"
    and pt: "primary_time line = Inr t"
    and st: "strip (slice line 31 36) \<noteq> []"
    and qf2: "slice line 39 40 \<notin> set [''5'', ''6'', ''7'', ''8'', ''9'']"
    and st2: "second_time t (slice line 31 36) = Inr t2"
    by simp_all
  from quality_field_low [OF assms(1) qf]
  obtain q where q: "read_quality (slice line 7 8) = Inr q"
    and err: "getitem errors q = Inr (errors ! nat q)"
    by auto
  from quality_field_low [OF assms(1) qf2]
  obtain q2 where q2: "read_quality (slice line 39 40) = Inr q2"
    and err2: "getitem errors q2 = Inr (errors ! nat q2)"
    by auto
  show "\<exists>picks. parse_hypo71_pick_line raw errors = Inr (Some picks)
      \<and> 1 \<le> length picks \<and> length picks \<le> 2"
    using decoder_two_fields [OF ns [unfolded assms(2)] sig [unfolded assms(2)]
        q [unfolded assms(2)] err pt [unfolded assms(2)] st [unfolded assms(2)]
        q2 [unfolded assms(2)] err2 st2 [unfolded assms(2)]]
    by simp
qed

theorem decoder_returns_or_time_fault_witness:
  "length [''0.01'', ''0.02'', ''0.03'', ''0.04'', ''0.05''] = 5
   \<and> ''STA  P 1 991231123456.78       12.34 S 2''
       = replace_char newline [] (''STA  P 1 991231123456.78       12.34 S 2'' @ [newline])
   \<and> strip ''STA  P 1 991231123456.78       12.34 S 2'' \<notin> set [''10'', '''']
   \<and> decoder_signature ''STA  P 1 991231123456.78       12.34 S 2'' = Inr True
   \<and> slice ''STA  P 1 991231123456.78       12.34 S 2'' 7 8
       \<notin> set [''5'', ''6'', ''7'', ''8'', ''9'']
   \<and> primary_time ''STA  P 1 991231123456.78       12.34 S 2'' = Inr 63082326896780000
   \<and> strip (slice ''STA  P 1 991231123456.78       12.34 S 2'' 31 36) \<noteq> []
   \<and> slice ''STA  P 1 991231123456.78       12.34 S 2'' 39 40
       \<notin> set [''5'', ''6'', ''7'', ''8'', ''9'']
   \<and> second_time 63082326896780000 (slice ''STA  P 1 991231123456.78       12.34 S 2'' 31 36)
       = Inr 63082326852340000
   \<and> (\<exists>picks. parse_hypo71_pick_line (''STA  P 1 991231123456.78       12.34 S 2'' @ [newline])
                [''0.01'', ''0.02'', ''0.03'', ''0.04'', ''0.05''] = Inr (Some picks)
              \<and> 1 \<le> length picks \<and> length picks \<le> 2)"
proof -
  let ?L = "''STA  P 1 991231123456.78       12.34 S 2''"
  let ?tbl = "[''0.01'', ''0.02'', ''0.03'', ''0.04'', ''0.05'']"
  have h1: "length ?tbl = 5"
    by simp
  have h2: "?L = replace_char newline [] (?L @ [newline])"
    by code_simp
  have h3: "strip ?L \<notin> set [''10'', '''']"
    by code_simp
  have h4: "decoder_signature ?L = Inr True"
    by code_simp
  have h5: "slice ?L 7 8 \<notin> set [''5'', ''6'', ''7'', ''8'', ''9'']"
    by code_simp
  have h6: "primary_time ?L = Inr 63082326896780000"
    by code_simp
  have h7: "strip (slice ?L 31 36) \<noteq> []"
    by code_simp
  have h8: "slice ?L 39 40 \<notin> set [''5'', ''6'', ''7'', ''8'', ''9'']"
    by code_simp
  have h9: "second_time 63082326896780000 (slice ?L 31 36) = Inr 63082326852340000"
    by code_simp
  from decoder_returns_or_time_fault [OF h1 h2, of ValueError 63082326896780000 63082326852340000]
    h3 h4 h5 h6 h7 h8 h9
  have "\<exists>picks. parse_hypo71_pick_line (?L @ [newline]) ?tbl = Inr (Some picks)
      \<and> 1 \<le> length picks \<and> length picks \<le> 2"
    by blast
  with h1 h2 h3 h4 h5 h6 h7 h8 h9 show ?thesis
    by blast
qed

subsection \<open>A line that only gives the time base\<close>

text \<open>
  Claim C9 says that every structurally valid line with a blank phase field and an empty
  or blank stime field gives zero picks. A line that passes the signature test may still
  have a primary time field that does not decode, and then the decoder raises instead.
\<close>

theorem time_base_line_raises_on_impossible_date:
  "decoder_signature ''STA    1 990231123456.78'' = Inr True
   \<and> slice ''STA    1 990231123456.78'' 5 6 = '' ''
   \<and> strip (slice ''STA    1 990231123456.78'' 31 36) = []
   \<and> parse_hypo71_pick_line ''STA    1 990231123456.78''
       [''0.01'', ''0.02'', ''0.03'', ''0.04'', ''0.05''] = Inl ValueError"
  by code_simp

text \<open>
  Claim C9, amended. A line that is neither blank nor a separator and passes the
  signature test, whose phase field (character 5) is blank, whose stime field is empty or
  blank, whose quality character is not a digit from 5 to 9 and whose primary time field
  decodes, gives the empty list of picks, for every 5-element error table.
\<close>

theorem time_base_line_yields_no_pick:
  fixes errors :: "'e list"
  assumes "length errors = 5"
    and "line = replace_char newline [] raw"
    and "strip line \<notin> set [''10'', '''']"
    and "decoder_signature line = Inr True"
    and "slice line 5 6 = '' ''"
    and "strip (slice line 31 36) = []"
    and "slice line 7 8 \<notin> set [''5'', ''6'', ''7'', ''8'', ''9'']"
    and "primary_time line = Inr t"
  shows "parse_hypo71_pick_line raw errors = Inr (Some [])"
proof -
  from quality_field_low [OF assms(1) assms(7)]
  obtain q where q: "read_quality (slice line 7 8) = Inr q"
    and err: "getitem errors q = Inr (errors ! nat q)"
    by auto
  from decoder_one_field [of raw q errors "errors ! nat q" t] assms q err
  show ?thesis
    by simp
qed

theorem time_base_line_yields_no_pick_witness:
  "length [''0.01'', ''0.02'', ''0.03'', ''0.04'', ''0.05''] = 5
   \<and> ''STA    1 991231123456.78''
       = replace_char newline [] (''STA    1 991231123456.78'' @ [newline])
   \<and> strip ''STA    1 991231123456.78'' \<notin> set [''10'', '''']
   \<and> decoder_signature ''STA    1 991231123456.78'' = Inr True
   \<and> slice ''STA    1 991231123456.78'' 5 6 = '' ''
   \<and> strip (slice ''STA    1 991231123456.78'' 31 36) = []
   \<and> slice ''STA    1 991231123456.78'' 7 8 \<notin> set [''5'', ''6'', ''7'', ''8'', ''9'']
   \<and> primary_time ''STA    1 991231123456.78'' = Inr 63082326896780000
   \<and> parse_hypo71_pick_line (''STA    1 991231123456.78'' @ [newline])
       [''0.01'', ''0.02'', ''0.03'', ''0.04'', ''0.05''] = Inr (Some [])"
proof -
  let ?L = "''STA    1 991231123456.78''"
  let ?tbl = "[''0.01'', ''0.02'', ''0.03'', ''0.04'', ''0.05'']"
  have h1: "length ?tbl = 5"
    by simp
  have h2: "?L = replace_char newline [] (?L @ [newline])"
    by code_simp
  have h3: "strip ?L \<notin> set [''10'', '''']"
    by code_simp
  have h4: "decoder_signature ?L = Inr True"
    by code_simp
  have h5: "slice ?L 5 6 = '' ''"
    by code_simp
  have h6: "strip (slice ?L 31 36) = []"
    by code_simp
  have h7: "slice ?L 7 8 \<notin> set [''5'', ''6'', ''7'', ''8'', ''9'']"
    by code_simp
  have h8: "primary_time ?L = Inr 63082326896780000"
    by code_simp
  from time_base_line_yields_no_pick [OF h1 h2 h3 h4 h5 h6 h7 h8] h1 h2 h3 h4 h5 h6 h7 h8
  show ?thesis
    by blast
qed


subsection \<open>Floats: mantissas stay non-negative, int() truncates\<close>

lemma round_half_even_nonneg: "0 \<le> p \<Longrightarrow> 0 < d \<Longrightarrow> 0 \<le> round_half_even p d"
  by (simp add: round_half_even_def Let_def pos_imp_zdiv_nonneg_iff)

lemma round_binary64_wf: "0 \<le> p \<Longrightarrow> 0 < q \<Longrightarrow> float_wf (round_binary64 s p q)"
  by (simp add: round_binary64_def Let_def float_wf_def round_half_even_nonneg)

lemma foldl_digits_nonneg:
  "list_all isdigit ds \<Longrightarrow> 0 \<le> a
   \<Longrightarrow> 0 \<le> foldl (\<lambda>a c. 10 * a + digit_value c) a ds"
proof (induction ds arbitrary: a)
  case Nil
  then show ?case by simp
next
  case (Cons c cs)
  from Cons.prems have "0 \<le> 10 * a + digit_value c"
    using digit_value_range [of c] by simp
  with Cons show ?case
    by simp
qed

lemma digits_value_nonneg: "list_all isdigit ds \<Longrightarrow> 0 \<le> digits_value ds"
  by (simp add: digits_value_def foldl_digits_nonneg)

lemma takeWhile_digits: "list_all isdigit (takeWhile isdigit s)"
  by (induction s) simp_all

lemma parse_float_literal_wf:
  assumes "parse_float_literal s = Inr x"
  shows "float_wf x"
proof -
  obtain neg r1 where sgn: "take_sign s = (neg, r1)"
    by (cases "take_sign s")
  define r2 where "r2 = dropWhile isdigit r1"
  define fp where "fp = (if r2 \<noteq> [] \<and> hd r2 = CHR ''.'' then takeWhile isdigit (tl r2) else [])"
  have "list_all isdigit (takeWhile isdigit r1 @ fp)"
    by (simp add: fp_def takeWhile_digits)
  then have n: "0 \<le> digits_value (takeWhile isdigit r1 @ fp)"
    by (rule digits_value_nonneg)
  have pow: "(0::int) < 10 ^ k" for k
    by simp
  from assms sgn have "x = Infinite neg \<or> x = NaN
      \<or> (\<exists>k. x = round_binary64 neg (digits_value (takeWhile isdigit r1 @ fp) * 10 ^ k) 1)
      \<or> (\<exists>k. x = round_binary64 neg (digits_value (takeWhile isdigit r1 @ fp)) (10 ^ k))"
    unfolding parse_float_literal_def Let_def r2_def fp_def
    by (auto split: if_splits option.splits)
  then consider "x = Infinite neg" | "x = NaN"
    | k where "x = round_binary64 neg (digits_value (takeWhile isdigit r1 @ fp) * 10 ^ k) 1"
    | k where "x = round_binary64 neg (digits_value (takeWhile isdigit r1 @ fp)) (10 ^ k)"
    by blast
  then show ?thesis
  proof cases
    case 1
    then show ?thesis by (simp add: float_wf_def)
  next
    case 2
    then show ?thesis by (simp add: float_wf_def)
  next
    case 3
    from n have "0 \<le> digits_value (takeWhile isdigit r1 @ fp) * 10 ^ k"
      by simp
    then show ?thesis
      unfolding 3 by (rule round_binary64_wf) simp
  next
    case 4
    from n pow [of k] show ?thesis
      unfolding 4 by (rule round_binary64_wf)
  qed
qed

lemma py_float_wf: "py_float s = Inr x \<Longrightarrow> float_wf x"
  by (auto simp: py_float_def Let_def parse_float_literal_wf split: if_splits)

lemma float_of_small_int_wf: "float_wf (float_of_small_int i)"
  by (simp add: float_of_small_int_def float_wf_def)

lemma float_mul_wf: "float_wf x \<Longrightarrow> float_wf y \<Longrightarrow> float_wf (float_mul x y)"
  by (induction x y rule: float_mul.induct)
    (auto simp: float_wf_def [of "Finite _ _ _"] round_binary64_wf
      intro!: mult_nonneg_nonneg
      simp: float_wf_def [of "Infinite _"] float_wf_def [of NaN])

lemma trunc_magnitude_floor:
  "\<lfloor>(of_int m :: rat) * (if 0 \<le> e then 2 ^ nat e else 1 / 2 ^ nat (- e))\<rfloor>
     = trunc_magnitude m e"
proof (cases "0 \<le> e")
  case True
  have "(of_int m :: rat) * 2 ^ nat e = of_int (m * 2 ^ nat e)"
    by simp
  with True show ?thesis
    unfolding trunc_magnitude_def by (simp only: if_True floor_of_int)
next
  case False
  have "(of_int m :: rat) * (1 / 2 ^ nat (- e)) = of_int m / of_int (2 ^ nat (- e))"
    by simp
  with False show ?thesis
    unfolding trunc_magnitude_def by (simp only: if_False floor_divide_of_int_eq)
qed

text \<open>
  \<^verbatim>\<open>int(x)\<close> cuts the fraction off: it is the floor of a non-negative float and the
  ceiling of a non-positive one, never the nearest integer.
\<close>

lemma py_int_of_float_truncates:
  assumes "float_wf x" and "py_int_of_float x = Inr i"
  shows "(0 \<le> float_val x \<longrightarrow> i = \<lfloor>float_val x\<rfloor>) \<and> (float_val x \<le> 0 \<longrightarrow> i = \<lceil>float_val x\<rceil>)"
proof (cases x)
  case (Finite s m e)
  define v :: rat where "v = of_int m * (if 0 \<le> e then 2 ^ nat e else 1 / 2 ^ nat (- e))"
  from assms(1) Finite have m: "0 \<le> m"
    by (simp add: float_wf_def)
  then have v0: "0 \<le> v"
    by (simp add: v_def)
  have fl: "\<lfloor>v\<rfloor> = trunc_magnitude m e"
    unfolding v_def by (rule trunc_magnitude_floor)
  show ?thesis
  proof (cases s)
    case True
    with Finite have val: "float_val x = - v"
      by (simp add: float_val_def v_def)
    from True Finite assms(2) have i: "i = - \<lfloor>v\<rfloor>"
      by (simp add: py_int_of_float_def fl)
    have "\<lceil>- v\<rceil> = - \<lfloor>v\<rfloor>"
      by (simp add: ceiling_def)
    moreover have "0 \<le> - v \<Longrightarrow> v = 0"
      using v0 by simp
    ultimately show ?thesis
      unfolding val i by auto
  next
    case False
    with Finite have val: "float_val x = v"
      by (simp add: float_val_def v_def)
    from False Finite assms(2) have i: "i = \<lfloor>v\<rfloor>"
      by (simp add: py_int_of_float_def fl)
    have "v \<le> 0 \<Longrightarrow> v = 0"
      using v0 by simp
    then show ?thesis
      unfolding val i by auto
  qed
next
  case (Infinite s)
  with assms(2) show ?thesis
    by (simp add: py_int_of_float_def)
next
  case NaN
  with assms(2) show ?thesis
    by (simp add: py_int_of_float_def)
qed


subsection \<open>The primary time\<close>

lemma and_then_Inr_D:
  assumes "and_then r f = Inr y"
  obtains x where "r = Inr x" and "f x = Inr y"
  using assms by (auto simp: and_then_Inr_iff)

lemma make_date_midnight: "make_date y m d = Inr t \<Longrightarrow> \<exists>n. t = n * us_per_day"
  by (auto simp: make_date_def split: if_splits)

lemma strptime_ymd_midnight:
  assumes "strptime_ymd s = Inr t"
  shows "\<exists>n. t = n * us_per_day"
  using assms
  by (auto simp: strptime_ymd_def Let_def split: list.splits if_splits prod.splits
      dest: make_date_midnight)

lemma timedelta_hmms_Inr:
  "timedelta_hmms h mi ms = Inr d \<Longrightarrow> d = h * 3600000000 + mi * 60000000 + ms * 1000"
  by (auto simp: timedelta_hmms_def timedelta_check_def split: if_splits)

lemma datetime_add_Inr: "datetime_add t d = Inr t' \<Longrightarrow> t' = t + d \<and> datetime_valid t'"
  by (auto simp: datetime_add_def datetime_check_def split: if_splits)

text \<open>What a decoded primary time was computed from.\<close>

lemma primary_time_D:
  assumes "primary_time line = Inr t"
  shows "\<exists>hour minute x ms n.
      py_float (slice (replace_char (CHR '' '') ''0'' (slice line 9 24)) 10 15) = Inr x
      \<and> py_int_of_float (float_mul x (float_of_small_int 1000)) = Inr ms
      \<and> t = n * us_per_day + hour * 3600000000 + minute * 60000000 + ms * 1000
      \<and> datetime_valid t"
proof -
  let ?ts = "replace_char (CHR '' '') ''0'' (slice line 9 24)"
  from assms have chain:
    "and_then (py_int (slice ?ts 6 8)) (\<lambda>hour.
     and_then (py_int (slice ?ts 8 10)) (\<lambda>minute.
     and_then (py_float (slice ?ts 10 15)) (\<lambda>seconds.
     and_then (py_int_of_float (float_mul seconds (float_of_small_int 1000))) (\<lambda>milliseconds.
     and_then (strptime_ymd (slice ?ts 0 6)) (\<lambda>t0.
     and_then (timedelta_hmms hour minute milliseconds) (\<lambda>delta.
     datetime_add t0 delta)))))) = Inr t"
    by (simp add: primary_time_def Let_def)
  from chain obtain hour where
    c1: "and_then (py_int (slice ?ts 8 10)) (\<lambda>minute.
     and_then (py_float (slice ?ts 10 15)) (\<lambda>seconds.
     and_then (py_int_of_float (float_mul seconds (float_of_small_int 1000))) (\<lambda>milliseconds.
     and_then (strptime_ymd (slice ?ts 0 6)) (\<lambda>t0.
     and_then (timedelta_hmms hour minute milliseconds) (\<lambda>delta.
     datetime_add t0 delta))))) = Inr t"
    by (rule and_then_Inr_D)
  from c1 obtain minute where
    c2: "and_then (py_float (slice ?ts 10 15)) (\<lambda>seconds.
     and_then (py_int_of_float (float_mul seconds (float_of_small_int 1000))) (\<lambda>milliseconds.
     and_then (strptime_ymd (slice ?ts 0 6)) (\<lambda>t0.
     and_then (timedelta_hmms hour minute milliseconds) (\<lambda>delta.
     datetime_add t0 delta)))) = Inr t"
    by (rule and_then_Inr_D)
  from c2 obtain x where x: "py_float (slice ?ts 10 15) = Inr x" and
    c3: "and_then (py_int_of_float (float_mul x (float_of_small_int 1000))) (\<lambda>milliseconds.
     and_then (strptime_ymd (slice ?ts 0 6)) (\<lambda>t0.
     and_then (timedelta_hmms hour minute milliseconds) (\<lambda>delta.
     datetime_add t0 delta))) = Inr t"
    by (rule and_then_Inr_D)
  from c3 obtain ms where ms: "py_int_of_float (float_mul x (float_of_small_int 1000)) = Inr ms" and
    c4: "and_then (strptime_ymd (slice ?ts 0 6)) (\<lambda>t0.
     and_then (timedelta_hmms hour minute ms) (\<lambda>delta.
     datetime_add t0 delta)) = Inr t"
    by (rule and_then_Inr_D)
  from c4 obtain t0 where t0: "strptime_ymd (slice ?ts 0 6) = Inr t0" and
    c5: "and_then (timedelta_hmms hour minute ms) (\<lambda>delta. datetime_add t0 delta) = Inr t"
    by (rule and_then_Inr_D)
  from c5 obtain delta where d: "timedelta_hmms hour minute ms = Inr delta" and
    c6: "datetime_add t0 delta = Inr t"
    by (rule and_then_Inr_D)
  from strptime_ymd_midnight [OF t0] obtain n where n: "t0 = n * us_per_day"
    by blast
  from datetime_add_Inr [OF c6] have sum: "t = t0 + delta" and valid: "datetime_valid t"
    by blast+
  from sum timedelta_hmms_Inr [OF d] n
  have "t = n * us_per_day + hour * 3600000000 + minute * 60000000 + ms * 1000"
    by simp
  with x ms valid show ?thesis
    by blast
qed

lemma microsecond_of_milliseconds:
  "dt_microsecond (n * us_per_day + hour * 3600000000 + minute * 60000000 + ms * 1000)
     = 1000 * (ms mod 1000)"
proof -
  have split: "n * us_per_day + hour * 3600000000 + minute * 60000000 + ms * 1000
      = 1000 * ms + (n * 86400 + hour * 3600 + minute * 60) * 1000000"
    by (simp add: us_per_day_def)
  have "(1000 * ms + (n * 86400 + hour * 3600 + minute * 60) * 1000000) mod 1000000
      = (1000 * ms) mod 1000000"
    by (rule mod_mult_self1)
  also have "(1000 * ms) mod 1000000 = (1000 * ms) mod (1000 * 1000)"
    by simp
  also have "\<dots> = 1000 * (ms mod 1000)"
    by (rule mod_mult_mult1)
  finally show ?thesis
    unfolding dt_microsecond_def split .
qed

text \<open>
  Claim C6. For every decoded pick line the sub-second part of the primary timestamp
  comes from \<^verbatim>\<open>int(seconds * 1000)\<close>: the float product cut to whole milliseconds (its
  floor when it is not negative), never rounded. The product is the binary64 one, so
  the seconds field \<open>02.01\<close> gives 2009 ms; a seconds value of 12.3459 gives 12345 ms,
  that is 345 ms past the second, not 346.
\<close>

theorem primary_subsecond_is_truncated_milliseconds:
  assumes "parse_hypo71_pick_line raw errors = Inr (Some picks)"
    and "line = replace_char newline [] raw"
  shows "\<exists>t x ms.
      primary_time line = Inr t
      \<and> (slice line 5 6 = ''P'' \<longrightarrow> time (hd picks) = Some t)
      \<and> py_float (slice (replace_char (CHR '' '') ''0'' (slice line 9 24)) 10 15) = Inr x
      \<and> py_int_of_float (float_mul x (float_of_small_int 1000)) = Inr ms
      \<and> (0 \<le> float_val (float_mul x (float_of_small_int 1000))
           \<longrightarrow> ms = \<lfloor>float_val (float_mul x (float_of_small_int 1000))\<rfloor>)
      \<and> (float_val (float_mul x (float_of_small_int 1000)) \<le> 0
           \<longrightarrow> ms = \<lceil>float_val (float_mul x (float_of_small_int 1000))\<rceil>)
      \<and> dt_microsecond t = 1000 * (ms mod 1000)"
proof -
  from decoder_Some_D [OF assms(1)] obtain q err t where
    t: "primary_time line = Inr t" and
    alt: "picks = (if slice line 5 6 = ''P'' then [primary_pick line q err t] else [])
      \<or> (\<exists>q2 err2 t2. picks = (if slice line 5 6 = ''P'' then [primary_pick line q err t] else [])
            @ [second_pick line (primary_pick line q err t) q2 err2 t2])"
    unfolding assms(2) by blast
  from alt have first: "slice line 5 6 = ''P'' \<longrightarrow> time (hd picks) = Some t"
    by (auto simp: primary_pick_def)
  from primary_time_D [OF t] obtain hour minute x ms n where
    x: "py_float (slice (replace_char (CHR '' '') ''0'' (slice line 9 24)) 10 15) = Inr x" and
    ms: "py_int_of_float (float_mul x (float_of_small_int 1000)) = Inr ms" and
    sum: "t = n * us_per_day + hour * 3600000000 + minute * 60000000 + ms * 1000"
    by blast
  have "float_wf (float_mul x (float_of_small_int 1000))"
    using py_float_wf [OF x] float_of_small_int_wf by (rule float_mul_wf)
  from py_int_of_float_truncates [OF this ms]
  have tr: "(0 \<le> float_val (float_mul x (float_of_small_int 1000))
           \<longrightarrow> ms = \<lfloor>float_val (float_mul x (float_of_small_int 1000))\<rfloor>)
      \<and> (float_val (float_mul x (float_of_small_int 1000)) \<le> 0
           \<longrightarrow> ms = \<lceil>float_val (float_mul x (float_of_small_int 1000))\<rceil>)" .
  have "dt_microsecond t = 1000 * (ms mod 1000)"
    unfolding sum by (rule microsecond_of_milliseconds)
  with t first x ms tr show ?thesis
    by blast
qed

lemma seconds_12_3459_give_345_ms:
  "and_then (py_float ''12.3459'') (\<lambda>x. py_int_of_float (float_mul x (float_of_small_int 1000)))
     = Inr 12345"
  by code_simp

theorem primary_subsecond_is_truncated_milliseconds_witness:
  "parse_hypo71_pick_line (''STA  P 1 991231123402.01'' @ [newline])
     [''0.01'', ''0.02'', ''0.03'', ''0.04'', ''0.05'']
     = Inr (Some [\<lparr>station = ''STA'', flag = '' '', phase = ''P'', polarity = '' '',
                    quality = 1, error = ''0.02'', time = Some 63082326842009000\<rparr>])
   \<and> ''STA  P 1 991231123402.01'' = replace_char newline [] (''STA  P 1 991231123402.01'' @ [newline])
   \<and> py_float ''02.01'' = Inr (Finite False 4526117625507348 (- 51))
   \<and> py_int_of_float (float_mul (Finite False 4526117625507348 (- 51)) (float_of_small_int 1000))
       = Inr 2009
   \<and> dt_microsecond 63082326842009000 = 1000 * (2009 mod 1000)"
proof -
  let ?L = "''STA  P 1 991231123402.01''"
  let ?tbl = "[''0.01'', ''0.02'', ''0.03'', ''0.04'', ''0.05'']"
  have h1: "parse_hypo71_pick_line (?L @ [newline]) ?tbl
     = Inr (Some [\<lparr>station = ''STA'', flag = '' '', phase = ''P'', polarity = '' '',
                    quality = 1, error = ''0.02'', time = Some 63082326842009000\<rparr>])"
    by code_simp
  have h2: "?L = replace_char newline [] (?L @ [newline])"
    by code_simp
  have h3: "py_float ''02.01'' = Inr (Finite False 4526117625507348 (- 51))"
    by code_simp
  have h4: "py_int_of_float (float_mul (Finite False 4526117625507348 (- 51))
      (float_of_small_int 1000)) = Inr 2009"
    by code_simp
  have h5: "primary_time ?L = Inr 63082326842009000"
    by code_simp
  have h6: "slice (replace_char (CHR '' '') ''0'' (slice ?L 9 24)) 10 15 = ''02.01''"
    by code_simp
  from primary_subsecond_is_truncated_milliseconds [OF h1 h2]
  obtain t x ms where
    "primary_time ?L = Inr t"
    "py_float (slice (replace_char (CHR '' '') ''0'' (slice ?L 9 24)) 10 15) = Inr x"
    "py_int_of_float (float_mul x (float_of_small_int 1000)) = Inr ms"
    "dt_microsecond t = 1000 * (ms mod 1000)"
    by blast
  with h3 h4 h5 h6 have "dt_microsecond 63082326842009000 = 1000 * (2009 mod 1000)"
    by simp
  with h1 h2 h3 h4 show ?thesis
    by blast
qed


subsection \<open>The second pick and the minute of the first\<close>















subsection \<open>The segmenter\<close>

lemma replace_char_filter: "replace_char c [] s = filter (\<lambda>x. x \<noteq> c) s"
  by (induction s) (simp_all add: replace_char_def)

lemma strip_eq_D:
  assumes "strip s = w"
  shows "\<exists>a b. s = a @ w @ b \<and> (\<forall>c\<in>set a. isspace c) \<and> (\<forall>c\<in>set b. isspace c)"
proof -
  define u where "u = dropWhile isspace s"
  have s: "s = takeWhile isspace s @ u"
    by (simp add: u_def)
  from assms have "dropWhile isspace (rev u) = rev w"
    by (simp add: strip_def u_def rev_swap)
  then have "rev u = takeWhile isspace (rev u) @ rev w"
    by (metis takeWhile_dropWhile_id)
  then have "rev (rev u) = rev (takeWhile isspace (rev u) @ rev w)"
    by simp
  then have u: "u = w @ rev (takeWhile isspace (rev u))"
    by simp
  have a: "\<forall>c\<in>set (takeWhile isspace s). isspace c"
    by (auto dest: set_takeWhileD)
  have b: "\<forall>c\<in>set (rev (takeWhile isspace (rev u))). isspace c"
    by (auto dest: set_takeWhileD)
  from s u have "s = takeWhile isspace s @ w @ rev (takeWhile isspace (rev u))"
    by simp
  with a b show ?thesis
    by blast
qed

lemma strip_padded:
  assumes "\<forall>c\<in>set a. isspace c" and "\<forall>c\<in>set b. isspace c"
    and "w \<noteq> []" and "\<not> isspace (hd w)" and "\<not> isspace (last w)"
  shows "strip (a @ w @ b) = w"
proof -
  from assms(3) obtain x xs where w: "w = x # xs"
    by (cases w) auto
  from assms(3) obtain ys y where w': "w = ys @ [y]"
    by (cases w rule: rev_cases) auto
  from assms(1) have "dropWhile isspace (a @ w @ b) = dropWhile isspace (w @ b)"
    by (simp add: dropWhile_append2)
  also from assms(4) w have "\<dots> = w @ b"
    by simp
  finally have front: "dropWhile isspace (a @ w @ b) = w @ b" .
  from assms(2) have "\<And>c. c \<in> set (rev b) \<Longrightarrow> isspace c"
    by simp
  then have "dropWhile isspace (rev b @ rev w) = dropWhile isspace (rev w)"
    by (rule dropWhile_append2)
  also from assms(5) w' have "\<dots> = rev w"
    by simp
  finally have "dropWhile isspace (rev (w @ b)) = rev w"
    by simp
  with front show ?thesis
    by (simp add: strip_def)
qed

lemma separator_without_newline:
  assumes "is_separator raw"
  shows "strip (replace_char newline [] raw) = ''10''"
proof -
  from assms have "strip raw = ''10''"
    by (simp add: is_separator_def)
  from strip_eq_D [OF this] obtain a b where
    raw: "raw = a @ ''10'' @ b" and a: "\<forall>c\<in>set a. isspace c" and b: "\<forall>c\<in>set b. isspace c"
    by blast
  have nl: "CHR ''1'' \<noteq> newline" "CHR ''0'' \<noteq> newline"
    by (simp_all add: newline_def)
  have "replace_char newline [] raw
      = filter (\<lambda>x. x \<noteq> newline) a @ ''10'' @ filter (\<lambda>x. x \<noteq> newline) b"
    using nl by (simp add: raw replace_char_filter)
  moreover have "strip (filter (\<lambda>x. x \<noteq> newline) a @ ''10'' @ filter (\<lambda>x. x \<noteq> newline) b) = ''10''"
    using a b by (intro strip_padded) (simp_all add: isspace_def)
  ultimately show ?thesis
    by simp
qed

lemma separator_decodes_to_None:
  "is_separator raw \<Longrightarrow> parse_hypo71_pick_line raw errors = Inr None"
  by (rule decoder_skip) (simp add: separator_without_newline)

lemma separator_no_picks: "is_separator raw \<Longrightarrow> picks_of_line raw errors = []"
  by (simp add: picks_of_line_def separator_decodes_to_None)

lemma split_events_nonempty: "split_events lines \<noteq> []"
  by (induction lines) simp_all

lemma split_events_length:
  "length (split_events lines) = Suc (length (filter is_separator lines))"
proof (induction lines)
  case Nil
  then show ?case by simp
next
  case (Cons l ls)
  have "length (tl (split_events ls)) = length (filter is_separator ls)"
    using Cons.IH by simp
  with Cons.IH show ?case
    by simp
qed

lemma split_events_concat:
  "concat (split_events lines) = filter (\<lambda>l. \<not> is_separator l) lines"
proof (induction lines)
  case Nil
  then show ?case by simp
next
  case (Cons l ls)
  have "split_events ls = hd (split_events ls) # tl (split_events ls)"
    using split_events_nonempty [of ls] by simp
  then have "concat (split_events ls) = hd (split_events ls) @ concat (tl (split_events ls))"
    by (metis concat.simps(2))
  with Cons.IH show ?case
    by simp
qed

lemma split_events_no_separator:
  "g \<in> set (split_events lines) \<Longrightarrow> l \<in> set g \<Longrightarrow> \<not> is_separator l"
proof -
  assume "g \<in> set (split_events lines)" and "l \<in> set g"
  then have "l \<in> set (concat (split_events lines))"
    by auto
  then show ?thesis
    by (simp add: split_events_concat)
qed

text \<open>
  The loop, started with any \<open>all_picks\<close> and \<open>picks\<close>: the events closed so far, then
  the open event with the first group added, then one event for each other group but the
  last.
\<close>

lemma segment_loop_groups:
  assumes "\<forall>l\<in>set lines. \<exists>r. parse_hypo71_pick_line l errors = Inr r"
  shows "segment_loop lines errors all_picks picks =
     Inr (all_picks @ butlast ((picks @ picks_of_lines (hd (split_events lines)) errors)
            # map (\<lambda>g. picks_of_lines g errors) (tl (split_events lines))))"
  using assms
proof (induction lines arbitrary: all_picks picks)
  case Nil
  then show ?case
    by (simp add: picks_of_lines_def)
next
  case (Cons l ls)
  from Cons.prems have rest: "\<forall>l\<in>set ls. \<exists>r. parse_hypo71_pick_line l errors = Inr r"
    by simp
  have groups: "split_events ls = hd (split_events ls) # tl (split_events ls)"
    using split_events_nonempty [of ls] by simp
  show ?case
  proof (cases "is_separator l")
    case True
    have step: "segment_loop (l # ls) errors all_picks picks
        = segment_loop ls errors (all_picks @ [picks]) []"
      using True separator_decodes_to_None [OF True, of errors]
      by (simp add: is_separator_def Let_def)
    have unfold: "map (\<lambda>g. picks_of_lines g errors) (split_events ls)
        = picks_of_lines (hd (split_events ls)) errors
          # map (\<lambda>g. picks_of_lines g errors) (tl (split_events ls))"
      using groups by (metis list.simps(9))
    have "segment_loop ls errors (all_picks @ [picks]) []
        = Inr ((all_picks @ [picks])
            @ butlast (map (\<lambda>g. picks_of_lines g errors) (split_events ls)))"
      using Cons.IH [OF rest, of "all_picks @ [picks]" "[]"] unfold by simp
    also have "(all_picks @ [picks])
            @ butlast (map (\<lambda>g. picks_of_lines g errors) (split_events ls))
        = all_picks @ butlast (picks # map (\<lambda>g. picks_of_lines g errors) (split_events ls))"
      using split_events_nonempty [of ls] by simp
    also have "picks # map (\<lambda>g. picks_of_lines g errors) (split_events ls)
        = (picks @ picks_of_lines (hd (split_events (l # ls))) errors)
          # map (\<lambda>g. picks_of_lines g errors) (tl (split_events (l # ls)))"
      using True by (simp add: picks_of_lines_def)
    finally show ?thesis
      unfolding step .
  next
    case False
    from Cons.prems obtain r where r: "parse_hypo71_pick_line l errors = Inr r"
      by auto
    have step: "segment_loop (l # ls) errors all_picks picks
        = segment_loop ls errors all_picks (picks @ picks_of_line l errors)"
      using False r
      by (cases r) (auto simp: is_separator_def Let_def picks_of_line_def)
    have "segment_loop ls errors all_picks (picks @ picks_of_line l errors)
        = Inr (all_picks @ butlast (((picks @ picks_of_line l errors)
                 @ picks_of_lines (hd (split_events ls)) errors)
            # map (\<lambda>g. picks_of_lines g errors) (tl (split_events ls))))"
      by (rule Cons.IH [OF rest])
    also have "(picks @ picks_of_line l errors) @ picks_of_lines (hd (split_events ls)) errors
        = picks @ picks_of_lines (hd (split_events (l # ls))) errors"
      using False by (simp add: picks_of_lines_def)
    also have "tl (split_events ls) = tl (split_events (l # ls))"
      using False by simp
    finally show ?thesis
      unfolding step .
  qed
qed

text \<open>
  Claim C3 says that a validated file with N separator lines gives N + 1 events. The
  loop appends an event only when it meets a separator and returns the closed events, so
  the file whose only line is a separator gives one event (an empty one), and picks read
  after the last separator are in no event.
\<close>

theorem one_separator_gives_one_event:
  "parse_hypo71_picks ''f.pick'' [''10'' @ [newline]] [''0.01'', ''0.02'', ''0.03'', ''0.04'', ''0.05'']
     = Inr [[]]
   \<and> parse_hypo71_picks ''f.pick''
       [''STA  P 1 991231123456.78'' @ [newline], ''10'' @ [newline],
        ''STA  P 1 991231123456.78'' @ [newline]]
       [''0.01'', ''0.02'', ''0.03'', ''0.04'', ''0.05'']
     = Inr [[\<lparr>station = ''STA'', flag = '' '', phase = ''P'', polarity = '' '',
               quality = 1, error = ''0.02'', time = Some 63082326896780000\<rparr>]]"
  by code_simp

text \<open>
  Claim C3, amended. For every file that passes validation and on whose lines the
  decoder does not raise, the segmenter returns exactly N events for N separator lines:
  the separators cut the lines into N + 1 groups, in source order and with no separator
  inside a group; the k-th event holds the picks decoded from the lines of the k-th
  group, in order, and nothing else; the lines after the last separator are in no event.
\<close>

theorem segmenter_gives_one_event_per_separator:
  fixes errors :: "'e list"
  assumes "is_hypo71_picks pick_file lines = Inr ()"
    and "\<forall>l\<in>set lines. \<exists>r. parse_hypo71_pick_line l errors = Inr r"
  shows "parse_hypo71_picks pick_file lines errors
           = Inr (map (\<lambda>g. picks_of_lines g errors) (butlast (split_events lines)))
         \<and> length (butlast (split_events lines)) = length (filter is_separator lines)
         \<and> length (split_events lines) = length (filter is_separator lines) + 1
         \<and> concat (split_events lines) = filter (\<lambda>l. \<not> is_separator l) lines
         \<and> (\<forall>g\<in>set (split_events lines). \<forall>l\<in>set g. \<not> is_separator l)"
proof -
  have groups: "split_events lines = hd (split_events lines) # tl (split_events lines)"
    using split_events_nonempty [of lines] by simp
  have "map (\<lambda>g. picks_of_lines g errors) (split_events lines)
      = picks_of_lines (hd (split_events lines)) errors
        # map (\<lambda>g. picks_of_lines g errors) (tl (split_events lines))"
    using groups by (metis list.simps(9))
  then have "segment_loop lines errors [] []
      = Inr (butlast (map (\<lambda>g. picks_of_lines g errors) (split_events lines)))"
    using segment_loop_groups [OF assms(2), of "[]" "[]"] by simp
  then have "parse_hypo71_picks pick_file lines errors
      = Inr (map (\<lambda>g. picks_of_lines g errors) (butlast (split_events lines)))"
    using assms(1) by (simp add: parse_hypo71_picks_def map_butlast)
  moreover have "length (butlast (split_events lines)) = length (filter is_separator lines)"
    by (simp add: split_events_length)
  moreover have "length (split_events lines) = length (filter is_separator lines) + 1"
    by (simp add: split_events_length)
  moreover note split_events_concat [of lines]
  moreover have "\<forall>g\<in>set (split_events lines). \<forall>l\<in>set g. \<not> is_separator l"
    using split_events_no_separator by blast
  ultimately show ?thesis
    by blast
qed

theorem segmenter_gives_one_event_per_separator_witness:
  "is_hypo71_picks ''f.pick''
     [''STA  P 1 991231123456.78'' @ [newline], ''10'' @ [newline],
      ''STA  P 1 991231123456.78'' @ [newline]] = Inr ()
   \<and> parse_hypo71_pick_line (''STA  P 1 991231123456.78'' @ [newline])
       [''0.01'', ''0.02'', ''0.03'', ''0.04'', ''0.05'']
     = Inr (Some [\<lparr>station = ''STA'', flag = '' '', phase = ''P'', polarity = '' '',
               quality = 1, error = ''0.02'', time = Some 63082326896780000\<rparr>])
   \<and> parse_hypo71_pick_line (''10'' @ [newline])
       [''0.01'', ''0.02'', ''0.03'', ''0.04'', ''0.05''] = Inr None
   \<and> split_events
       [''STA  P 1 991231123456.78'' @ [newline], ''10'' @ [newline],
        ''STA  P 1 991231123456.78'' @ [newline]]
       = [[''STA  P 1 991231123456.78'' @ [newline]], [''STA  P 1 991231123456.78'' @ [newline]]]
   \<and> parse_hypo71_picks ''f.pick''
       [''STA  P 1 991231123456.78'' @ [newline], ''10'' @ [newline],
        ''STA  P 1 991231123456.78'' @ [newline]]
       [''0.01'', ''0.02'', ''0.03'', ''0.04'', ''0.05'']
     = Inr [picks_of_lines [''STA  P 1 991231123456.78'' @ [newline]]
              [''0.01'', ''0.02'', ''0.03'', ''0.04'', ''0.05'']]"
proof -
  let ?L = "''STA  P 1 991231123456.78'' @ [newline]"
  let ?S = "''10'' @ [newline]"
  let ?tbl = "[''0.01'', ''0.02'', ''0.03'', ''0.04'', ''0.05'']"
  have h1: "is_hypo71_picks ''f.pick'' [?L, ?S, ?L] = Inr ()"
    by code_simp
  have l1: "parse_hypo71_pick_line ?L ?tbl
     = Inr (Some [\<lparr>station = ''STA'', flag = '' '', phase = ''P'', polarity = '' '',
               quality = 1, error = ''0.02'', time = Some 63082326896780000\<rparr>])"
    by code_simp
  have l2: "parse_hypo71_pick_line ?S ?tbl = Inr None"
    by code_simp
  have h2: "\<forall>l\<in>set [?L, ?S, ?L]. \<exists>r. parse_hypo71_pick_line l ?tbl = Inr r"
    using l1 l2 by simp
  have h3: "split_events [?L, ?S, ?L] = [[?L], [?L]]"
    by code_simp
  from segmenter_gives_one_event_per_separator [OF h1 h2]
  have "parse_hypo71_picks ''f.pick'' [?L, ?S, ?L] ?tbl
      = Inr (map (\<lambda>g. picks_of_lines g ?tbl) (butlast (split_events [?L, ?S, ?L])))"
    by (rule conjunct1)
  then have "parse_hypo71_picks ''f.pick'' [?L, ?S, ?L] ?tbl = Inr [picks_of_lines [?L] ?tbl]"
    unfolding h3 by simp
  with h1 l1 l2 h3 show ?thesis
    by (intro conjI)
qed


subsection \<open>The \<open>--errors\<close> option\<close>

lemma parse_float_literal_error: "parse_float_literal w = Inl e \<Longrightarrow> e = ValueError"
  by (auto simp: parse_float_literal_def Let_def split: if_splits option.splits prod.splits)

lemma py_float_error: "py_float w = Inl e \<Longrightarrow> e = ValueError"
  by (auto simp: py_float_def Let_def dest: parse_float_literal_error split: if_splits)

lemma getitem_error: "getitem xs i = Inl e \<Longrightarrow> e = IndexError"
  by (auto simp: getitem_def split: if_splits)

lemma getitem_past_end: "getitem xs (int (length xs)) = Inl IndexError"
  by (simp add: getitem_def)

lemma collect_error:
  assumes "\<exists>x\<in>set xs. \<exists>e. f x = Inl e" and "\<forall>x\<in>set xs. \<forall>e. f x = Inl e \<longrightarrow> P e"
  shows "\<exists>e. collect f xs = Inl e \<and> P e"
  using assms
proof (induction xs)
  case Nil
  then show ?case by simp
next
  case (Cons x xs)
  show ?case
  proof (cases "f x")
    case (Inl e)
    with Cons.prems(2) show ?thesis
      by simp
  next
    case (Inr y)
    with Cons.prems have "\<exists>x\<in>set xs. \<exists>e. f x = Inl e" and "\<forall>x\<in>set xs. \<forall>e. f x = Inl e \<longrightarrow> P e"
      by auto
    from Cons.IH [OF this] obtain e where "collect f xs = Inl e" and "P e"
      by blast
    with Inr show ?thesis
      by simp
  qed
qed

lemma collect_Inr_iff:
  fixes f :: "'a \<Rightarrow> pyerr + 'b"
  shows "collect f xs = Inr ys \<longleftrightarrow> map f xs = map Inr ys"
proof (induction xs arbitrary: ys)
  case Nil
  then show ?case by auto
next
  case (Cons x xs)
  show ?case
  proof (cases "f x")
    case (Inl e)
    then show ?thesis
      by (cases ys) auto
  next
    case fx: (Inr y)
    show ?thesis
    proof (cases "collect f xs")
      case (Inl e)
      with Cons.IH have "\<And>zs. map f xs \<noteq> map Inr zs"
        by simp
      with fx Inl show ?thesis
        by (cases ys) auto
    next
      case (Inr zs)
      with Cons.IH [of zs] have m: "map f xs = map Inr zs"
        by simp
      have "inj (Inr :: 'b \<Rightarrow> pyerr + 'b)"
        by (simp add: inj_def)
      then have "map Inr zs = map (Inr :: 'b \<Rightarrow> pyerr + 'b) ws \<longleftrightarrow> zs = ws" for ws
        by (simp add: inj_map_eq_map)
      with fx Inr m show ?thesis
        by (cases ys) auto
    qed
  qed
qed

lemma five_fields:
  assumes "5 \<le> length fs"
  shows "collect (\<lambda>i. and_then (getitem fs i) to_float) [0, 1, 2, 3, 4]
           = collect to_float (take 5 fs)"
proof -
  from assms obtain a b c d e rest where "fs = a # b # c # d # e # rest"
    by (auto simp: numeral_eq_Suc Suc_le_length_iff)
  then show ?thesis
    by (simp add: getitem_def)
qed

lemma too_few_fields:
  assumes "length fs < 5" and only_value_errors: "\<forall>w e. to_float w = Inl e \<longrightarrow> e = ValueError"
  shows "\<exists>e. collect (\<lambda>i. and_then (getitem fs i) to_float) [0, 1, 2, 3, 4] = Inl e
          \<and> (e = IndexError \<or> e = ValueError)"
proof (rule collect_error)
  from assms(1) have "int (length fs) \<in> set [0, 1, 2, 3, 4]"
    by (simp add: numeral_eq_Suc less_Suc_eq)
  moreover have "and_then (getitem fs (int (length fs))) to_float = Inl IndexError"
    by (simp add: getitem_past_end)
  ultimately show "\<exists>x\<in>set [0, 1, 2, 3, 4]. \<exists>e. and_then (getitem fs x) to_float = Inl e"
    by blast
next
  have "e = IndexError \<or> e = ValueError" if "and_then (getitem fs i) to_float = Inl e" for i e
  proof (cases "getitem fs i")
    case (Inl e')
    with that getitem_error [of fs i e'] show ?thesis
      by simp
  next
    case (Inr w)
    with that only_value_errors show ?thesis
      by auto
  qed
  then show "\<forall>x\<in>set [0, 1, 2, 3, 4]. \<forall>e. and_then (getitem fs x) to_float = Inl e
      \<longrightarrow> e = IndexError \<or> e = ValueError"
    by blast
qed

lemma parse_args_rejects:
  assumes only_value_errors: "\<forall>w e. to_float w = Inl e \<longrightarrow> e = ValueError"
    and "\<not> (5 \<le> length (split_on (CHR '','') s)
            \<and> (\<forall>w\<in>set (take 5 (split_on (CHR '','') s)). \<exists>x. to_float w = Inr x))"
  shows "\<exists>msg. parse_args to_float s = Inl (ParserError msg)
           \<and> msg \<in> set [''You must specify 5 values for --errors'', ''Invalid values for --errors'']"
proof (cases "5 \<le> length (split_on (CHR '','') s)")
  case True
  with assms(2) obtain w where w: "w \<in> set (take 5 (split_on (CHR '','') s))"
    and "\<nexists>x. to_float w = Inr x"
    by blast
  then have "\<exists>e. to_float w = Inl e"
    by (cases "to_float w") auto
  with w have "\<exists>x\<in>set (take 5 (split_on (CHR '','') s)). \<exists>e. to_float x = Inl e"
    by blast
  moreover have "\<forall>x\<in>set (take 5 (split_on (CHR '','') s)). \<forall>e. to_float x = Inl e \<longrightarrow> e = ValueError"
    using only_value_errors by blast
  ultimately have "\<exists>e. collect to_float (take 5 (split_on (CHR '','') s)) = Inl e \<and> e = ValueError"
    by (rule collect_error)
  then have "collect to_float (take 5 (split_on (CHR '','') s)) = Inl ValueError"
    by blast
  then have c: "collect (\<lambda>i. and_then (getitem (split_on (CHR '','') s) i) to_float) [0, 1, 2, 3, 4]
      = Inl ValueError"
    by (simp only: five_fields [OF True])
  show ?thesis
    unfolding parse_args_def Let_def c by simp
next
  case False
  then have "length (split_on (CHR '','') s) < 5"
    by simp
  from too_few_fields [OF this only_value_errors] obtain e where
    c: "collect (\<lambda>i. and_then (getitem (split_on (CHR '','') s) i) to_float) [0, 1, 2, 3, 4] = Inl e"
    and e: "e = IndexError \<or> e = ValueError"
    by blast
  from e show ?thesis
    unfolding parse_args_def Let_def c by auto
qed

lemma parse_args_accepts:
  assumes "5 \<le> length (split_on (CHR '','') s)"
    and "\<forall>w\<in>set (take 5 (split_on (CHR '','') s)). \<exists>x. to_float w = Inr x"
  shows "\<exists>es. parse_args to_float s = Inr es \<and> length es = 5
           \<and> map Inr es = map to_float (take 5 (split_on (CHR '','') s))"
proof -
  have "\<exists>es. collect to_float ws = Inr es" if "\<forall>w\<in>set ws. \<exists>x. to_float w = Inr x" for ws
    using that by (induction ws) auto
  from this [OF assms(2)] obtain es where
    es: "collect to_float (take 5 (split_on (CHR '','') s)) = Inr es"
    by blast
  then have m: "map to_float (take 5 (split_on (CHR '','') s)) = map Inr es"
    by (simp add: collect_Inr_iff)
  then have "length (take 5 (split_on (CHR '','') s)) = length es"
    by (metis length_map)
  with assms(1) have "length es = 5"
    by simp
  moreover have c: "collect (\<lambda>i. and_then (getitem (split_on (CHR '','') s) i) to_float) [0, 1, 2, 3, 4]
      = Inr es"
    by (simp only: five_fields [OF assms(1)] es)
  have "parse_args to_float s = Inr es"
    unfolding parse_args_def Let_def c by simp
  ultimately show ?thesis
    using m by simp
qed

text \<open>
  Claim C8 says that a string which does not hold exactly 5 numeric values ends the run
  with a configuration error. The comprehension reads the fields 0 to 4 only: a sixth
  field is never looked at, numeric or not, and the run goes on.
\<close>

theorem six_values_are_accepted:
  "split_on (CHR '','') ''1,2,3,4,5,x'' = [''1'', ''2'', ''3'', ''4'', ''5'', ''x'']
   \<and> py_float ''x'' = Inl ValueError
   \<and> parse_args py_float ''1,2,3,4,5,x''
       = Inr [Finite False 4503599627370496 (- 52), Finite False 4503599627370496 (- 51),
              Finite False 6755399441055744 (- 51), Finite False 4503599627370496 (- 50),
              Finite False 5629499534213120 (- 50)]
   \<and> parse_args py_float ''1,2,3,4,5,6'' = parse_args py_float ''1,2,3,4,5''
   \<and> run py_float (\<lambda>x. []) ''1,2,3,4,5,6'' ''f.pick'' [''10'' @ [newline]]
       = ([[newline, newline]], None)"
  by code_simp

text \<open>
  Claim C8, amended. Whatever \<^verbatim>\<open>float\<close> accepts, as long as it raises nothing but
  ValueError: the \<open>--errors\<close> string is accepted exactly when it has at least five
  comma-separated fields and \<^verbatim>\<open>float\<close> accepts each of the first five; the table is then
  the five floats of these fields, and the fields after the fifth are ignored. In every
  other case \<^verbatim>\<open>parser.error\<close> ends the run, whatever the pick file holds, with nothing
  written.
\<close>

theorem errors_option_needs_five_leading_floats:
  assumes "\<forall>w e. to_float w = Inl e \<longrightarrow> e = ValueError"
  shows "(5 \<le> length (split_on (CHR '','') s)
      \<and> (\<forall>w\<in>set (take 5 (split_on (CHR '','') s)). \<exists>x. to_float w = Inr x)
    \<longrightarrow> (\<exists>es. parse_args to_float s = Inr es \<and> length es = 5
           \<and> map Inr es = map to_float (take 5 (split_on (CHR '','') s))))
   \<and> (\<not> (5 \<le> length (split_on (CHR '','') s)
          \<and> (\<forall>w\<in>set (take 5 (split_on (CHR '','') s)). \<exists>x. to_float w = Inr x))
    \<longrightarrow> (\<exists>msg. parse_args to_float s = Inl (ParserError msg)
           \<and> msg \<in> set [''You must specify 5 values for --errors'', ''Invalid values for --errors'']
           \<and> (\<forall>pick_file lines.
                 run to_float str_float s pick_file lines = ([], Some (ParserError msg)))))"
proof (intro conjI impI)
  assume "5 \<le> length (split_on (CHR '','') s)
      \<and> (\<forall>w\<in>set (take 5 (split_on (CHR '','') s)). \<exists>x. to_float w = Inr x)"
  then show "\<exists>es. parse_args to_float s = Inr es \<and> length es = 5
           \<and> map Inr es = map to_float (take 5 (split_on (CHR '','') s))"
    using parse_args_accepts by blast
next
  assume rejected: "\<not> (5 \<le> length (split_on (CHR '','') s)
          \<and> (\<forall>w\<in>set (take 5 (split_on (CHR '','') s)). \<exists>x. to_float w = Inr x))"
  from parse_args_rejects [OF assms rejected] obtain msg where
    msg: "parse_args to_float s = Inl (ParserError msg)"
      "msg \<in> set [''You must specify 5 values for --errors'', ''Invalid values for --errors'']"
    by blast
  from msg(1) have "\<forall>pick_file lines.
      run to_float str_float s pick_file lines = ([], Some (ParserError msg))"
    by (simp add: run_def)
  with msg show "\<exists>msg. parse_args to_float s = Inl (ParserError msg)
           \<and> msg \<in> set [''You must specify 5 values for --errors'', ''Invalid values for --errors'']
           \<and> (\<forall>pick_file lines.
                 run to_float str_float s pick_file lines = ([], Some (ParserError msg)))"
    by blast
qed

theorem errors_option_needs_five_leading_floats_witness:
  "split_on (CHR '','') ''1,2,3,4,5,6'' = [''1'', ''2'', ''3'', ''4'', ''5'', ''6'']
   \<and> map py_float [''1'', ''2'', ''3'', ''4'', ''5'']
       = map Inr [Finite False 4503599627370496 (- 52), Finite False 4503599627370496 (- 51),
              Finite False 6755399441055744 (- 51), Finite False 4503599627370496 (- 50),
              Finite False 5629499534213120 (- 50)]
   \<and> (\<exists>es. parse_args py_float ''1,2,3,4,5,6'' = Inr es \<and> length es = 5
         \<and> map Inr es = map py_float [''1'', ''2'', ''3'', ''4'', ''5''])
   \<and> split_on (CHR '','') ''1,2,3,4'' = [''1'', ''2'', ''3'', ''4'']
   \<and> (\<exists>msg. parse_args py_float ''1,2,3,4'' = Inl (ParserError msg)
         \<and> run py_float (\<lambda>x. []) ''1,2,3,4'' ''f.pick'' [''10'' @ [newline]]
             = ([], Some (ParserError msg)))"
proof -
  have only_value_errors: "\<forall>w e. py_float w = Inl e \<longrightarrow> e = ValueError"
    using py_float_error by blast
  have s6: "split_on (CHR '','') ''1,2,3,4,5,6'' = [''1'', ''2'', ''3'', ''4'', ''5'', ''6'']"
    by code_simp
  have fl: "map py_float [''1'', ''2'', ''3'', ''4'', ''5'']
       = map Inr [Finite False 4503599627370496 (- 52), Finite False 4503599627370496 (- 51),
              Finite False 6755399441055744 (- 51), Finite False 4503599627370496 (- 50),
              Finite False 5629499534213120 (- 50)]"
    by code_simp
  have s4: "split_on (CHR '','') ''1,2,3,4'' = [''1'', ''2'', ''3'', ''4'']"
    by code_simp
  have ok: "5 \<le> length (split_on (CHR '','') ''1,2,3,4,5,6'')
      \<and> (\<forall>w\<in>set (take 5 (split_on (CHR '','') ''1,2,3,4,5,6'')). \<exists>x. py_float w = Inr x)"
    unfolding s6 using fl by simp
  have ko: "\<not> (5 \<le> length (split_on (CHR '','') ''1,2,3,4'')
      \<and> (\<forall>w\<in>set (take 5 (split_on (CHR '','') ''1,2,3,4'')). \<exists>x. py_float w = Inr x))"
    unfolding s4 by simp
  from errors_option_needs_five_leading_floats
    [OF only_value_errors, of "''1,2,3,4,5,6''" "\<lambda>x. []"] ok
  have a: "\<exists>es. parse_args py_float ''1,2,3,4,5,6'' = Inr es \<and> length es = 5
         \<and> map Inr es = map py_float [''1'', ''2'', ''3'', ''4'', ''5'']"
    unfolding s6 by simp
  from errors_option_needs_five_leading_floats
    [OF only_value_errors, of "''1,2,3,4''" "\<lambda>x. []"] ko
  have b: "\<exists>msg. parse_args py_float ''1,2,3,4'' = Inl (ParserError msg)
         \<and> run py_float (\<lambda>x. []) ''1,2,3,4'' ''f.pick'' [''10'' @ [newline]]
             = ([], Some (ParserError msg))"
    by blast
  from s6 fl a s4 b show ?thesis
    by (intro conjI)
qed


subsection \<open>The calendar fields of a datetime\<close>

lemma days_before_month_step:
  "1 \<le> m \<Longrightarrow> days_before_month y (m + 1) = days_before_month y m + days_in_month y m"
  by (subst days_before_month.simps) simp

lemma days_before_month_13:
  "days_before_month y 13 = (if is_leap y then 366 else 365)"
proof -
  have m1: "days_before_month y 1 = 0"
    by (subst days_before_month.simps) simp
  have m2: "days_before_month y 2 = days_before_month y 1 + 31"
    using days_before_month_step [of 1 y] by (simp add: days_in_month_def)
  have m3: "days_before_month y 3 = days_before_month y 2 + (if is_leap y then 29 else 28)"
    using days_before_month_step [of 2 y] by (simp add: days_in_month_def)
  have m4: "days_before_month y 4 = days_before_month y 3 + 31"
    using days_before_month_step [of 3 y] by (simp add: days_in_month_def)
  have m5: "days_before_month y 5 = days_before_month y 4 + 30"
    using days_before_month_step [of 4 y] by (simp add: days_in_month_def)
  have m6: "days_before_month y 6 = days_before_month y 5 + 31"
    using days_before_month_step [of 5 y] by (simp add: days_in_month_def)
  have m7: "days_before_month y 7 = days_before_month y 6 + 30"
    using days_before_month_step [of 6 y] by (simp add: days_in_month_def)
  have m8: "days_before_month y 8 = days_before_month y 7 + 31"
    using days_before_month_step [of 7 y] by (simp add: days_in_month_def)
  have m9: "days_before_month y 9 = days_before_month y 8 + 31"
    using days_before_month_step [of 8 y] by (simp add: days_in_month_def)
  have m10: "days_before_month y 10 = days_before_month y 9 + 30"
    using days_before_month_step [of 9 y] by (simp add: days_in_month_def)
  have m11: "days_before_month y 11 = days_before_month y 10 + 31"
    using days_before_month_step [of 10 y] by (simp add: days_in_month_def)
  have m12: "days_before_month y 12 = days_before_month y 11 + 30"
    using days_before_month_step [of 11 y] by (simp add: days_in_month_def)
  have m13: "days_before_month y 13 = days_before_month y 12 + 31"
    using days_before_month_step [of 12 y] by (simp add: days_in_month_def)
  show ?thesis
    unfolding m13 m12 m11 m10 m9 m8 m7 m6 m5 m4 m3 m2 m1 by simp
qed

lemma days_before_month_12:
  "days_before_month y 13 = days_before_month y 12 + 31"
  using days_before_month_step [of 12 y] by (simp add: days_in_month_def)

lemma days_in_month_le: "days_in_month y m \<le> 31"
  by (simp add: days_in_month_def)

lemma find_month_bounds:
  assumes "1 \<le> m" and "m \<le> 12" and "1 \<le> k"
    and "k + days_before_month y m \<le> days_before_month y 13"
    and "find_month y m k = (m', k')"
  shows "1 \<le> m' \<and> m' \<le> 12 \<and> 1 \<le> k' \<and> k' \<le> 31"
  using assms
proof (induction y m k rule: find_month.induct)
  case (1 y m n)
  show ?case
  proof (cases "m < 12 \<and> days_in_month y m < n")
    case True
    have next_month: "find_month y m n = find_month y (m + 1) (n - days_in_month y m)"
      by (subst find_month.simps) (simp only: True if_True simp_thms)
    from True "1.prems"(1) have "1 \<le> m + 1" and "m + 1 \<le> 12" and "1 \<le> n - days_in_month y m"
      by simp_all
    moreover from "1.prems"(1,4)
    have "n - days_in_month y m + days_before_month y (m + 1) \<le> days_before_month y 13"
      by (simp add: days_before_month_step)
    moreover from "1.prems"(5) have "find_month y (m + 1) (n - days_in_month y m) = (m', k')"
      by (simp add: next_month)
    ultimately show ?thesis
      by (rule "1.IH" [OF True])
  next
    case False
    have stop: "find_month y m n = (m, n)"
      by (subst find_month.simps) (simp only: False if_False)
    with "1.prems"(5) have eq: "m' = m" "k' = n"
      by simp_all
    have "n \<le> 31"
    proof (cases "m < 12")
      case True
      with False have "n \<le> days_in_month y m"
        by simp
      with days_in_month_le [of y m] show ?thesis
        by simp
    next
      case False
      with "1.prems"(2) have "m = 12"
        by simp
      with "1.prems"(4) show ?thesis
        by (simp add: days_before_month_12)
    qed
    with "1.prems"(1,2,3) eq show ?thesis
      by simp
  qed
qed

lemma find_year_upper: "y \<le> 9999 \<Longrightarrow> n \<le> 3652059 \<Longrightarrow> find_year y n \<le> 9999"
proof (induction y n rule: find_year.induct)
  case (1 y n)
  show ?case
  proof (cases "days_before_year (y + 1) < n")
    case True
    have "y \<noteq> 9999"
    proof
      assume "y = 9999"
      with True "1.prems"(2) show False
        by (simp add: days_before_year_def)
    qed
    with "1.prems"(1) have "y + 1 \<le> 9999"
      by simp
    from "1.IH" [OF True this "1.prems"(2)] True show ?thesis
      by (subst find_year.simps) simp
  next
    case False
    with "1.prems"(1) show ?thesis
      by (subst find_year.simps) simp
  qed
qed

lemma find_year_stop: "n \<le> days_before_year (find_year y n + 1)"
proof (induction y n rule: find_year.induct)
  case (1 y n)
  show ?case
  proof (cases "days_before_year (y + 1) < n")
    case True
    from "1.IH" [OF True] True show ?thesis
      by (subst find_year.simps) simp
  next
    case False
    then show ?thesis
      by (subst find_year.simps) simp
  qed
qed

lemma find_year_lower: "days_before_year y < n \<Longrightarrow> days_before_year (find_year y n) < n"
proof (induction y n rule: find_year.induct)
  case (1 y n)
  show ?case
  proof (cases "days_before_year (y + 1) < n")
    case True
    from "1.IH" [OF True True] True show ?thesis
      by (subst find_year.simps) simp
  next
    case False
    with "1.prems" show ?thesis
      by (subst find_year.simps) simp
  qed
qed

lemma year_estimate_lower:
  assumes "1 \<le> n"
  shows "days_before_year ((n - 1) div 366 + 1) < n"
proof -
  define q where "q = (n - 1) div 366"
  from assms have q0: "0 \<le> q"
    by (simp add: q_def pos_imp_zdiv_nonneg_iff)
  have a: "366 * q \<le> n - 1"
    unfolding q_def by (simp add: mult.commute [of 366])
  have b: "4 * (q div 4) \<le> q"
    by (simp add: mult.commute [of 4])
  have c: "400 * (q div 400) \<le> q"
    by (simp add: mult.commute [of 400])
  from q0 have d: "0 \<le> q div 100"
    by (simp add: pos_imp_zdiv_nonneg_iff)
  have "days_before_year (q + 1) = 365 * q + q div 4 - q div 100 + q div 400"
    by (simp add: days_before_year_def)
  with a b c d q0 show ?thesis
    unfolding q_def [symmetric] by linarith
qed

lemma year_estimate_upper:
  fixes n :: int
  assumes "n \<le> 3652059"
  shows "(n - 1) div 366 + 1 \<le> 9999"
proof -
  from assms have "(n - 1) div 366 \<le> 3652058 div 366"
    by (intro zdiv_mono1) simp_all
  then show ?thesis
    by simp
qed

lemma div_step:
  fixes y k :: int
  assumes "0 < k"
  shows "y div k - (y - 1) div k = (if y mod k = 0 then 1 else 0)"
proof (cases "y mod k = 0")
  case True
  have "y = k * (y div k) + y mod k"
    by simp
  with True have "y - 1 = k * (y div k - 1) + (k - 1)"
    by (simp add: algebra_simps)
  from int_div_pos_eq [OF this] assms have "(y - 1) div k = y div k - 1"
    by simp
  with True show ?thesis
    by simp
next
  case False
  have "0 \<le> y mod k"
    using assms by simp
  with False have "0 < y mod k"
    by simp
  moreover have "y mod k < k"
    using assms by simp
  moreover have "y - 1 = k * (y div k) + (y mod k - 1)"
    by simp
  ultimately have "(y - 1) div k = y div k"
    by (intro int_div_pos_eq [of "y - 1" k "y div k" "y mod k - 1"]) simp_all
  with False show ?thesis
    by simp
qed
lemma mod_400_100: "(y::int) mod 400 = 0 \<Longrightarrow> y mod 100 = 0"
  by presburger
lemma mod_100_4: "(y::int) mod 100 = 0 \<Longrightarrow> y mod 4 = 0"
  by presburger
lemma leap_day_count:
  "(365::int) + (if (y::int) mod 4 = 0 then 1 else 0) - (if y mod 100 = 0 then 1 else 0)
     + (if y mod 400 = 0 then 1 else 0)
   = (if y mod 4 = 0 \<and> (y mod 400 = 0 \<or> y mod 100 \<noteq> 0) then 366 else 365)"
proof (cases "y mod 400 = 0")
  case True
  then have "y mod 100 = 0"
    by (rule mod_400_100)
  moreover from this have "y mod 4 = 0"
    by (rule mod_100_4)
  ultimately show ?thesis
    using True by (simp only: if_True if_False simp_thms; simp)
next
  case n400: False
  show ?thesis
  proof (cases "y mod 100 = 0")
    case True
    then have "y mod 4 = 0"
      by (rule mod_100_4)
    with True n400 show ?thesis
      by (simp only: if_True if_False simp_thms; simp)
  next
    case False
    with n400 show ?thesis
      by (simp only: if_True if_False simp_thms; simp)
  qed
qed

lemma year_length:
  "days_before_year (y + 1) - days_before_year y = (if is_leap y then 366 else 365)"
proof -
  have "days_before_year (y + 1) - days_before_year y
      = 365 + (y div 4 - (y - 1) div 4) - (y div 100 - (y - 1) div 100)
        + (y div 400 - (y - 1) div 400)"
    by (simp add: days_before_year_def)
  also have "\<dots> = 365 + (if y mod 4 = 0 then 1 else 0) - (if y mod 100 = 0 then 1 else 0)
        + (if y mod 400 = 0 then 1 else 0)"
    by (simp only: div_step [of 4 y] div_step [of 100 y] div_step [of 400 y] zero_less_numeral
        if_True)
  also have "\<dots> = (if is_leap y then 366 else 365)"
    unfolding is_leap_def by (rule leap_day_count)
  finally show ?thesis .
qed

lemma ord2ymd_bounds:
  assumes "1 \<le> n" and "n \<le> 3652059" and "ord2ymd n = (y, m, d)"
  shows "y \<le> 9999 \<and> 1 \<le> m \<and> m \<le> 12 \<and> 1 \<le> d \<and> d \<le> 31"
proof -
  from assms(3) have y: "y = find_year ((n - 1) div 366 + 1) n"
    by (auto simp: ord2ymd_def Let_def)
  from assms(3) have md: "find_month y 1 (n - days_before_year y) = (m, d)"
    unfolding y by (auto simp: ord2ymd_def Let_def)
  have upper: "y \<le> 9999"
    unfolding y using year_estimate_upper [OF assms(2)] assms(2) by (rule find_year_upper)
  have "days_before_year y < n"
    unfolding y using year_estimate_lower [OF assms(1)] by (rule find_year_lower)
  then have d1: "1 \<le> n - days_before_year y"
    by simp
  have "n \<le> days_before_year (y + 1)"
    unfolding y by (rule find_year_stop)
  with year_length [of y] have "n - days_before_year y \<le> days_before_month y 13"
    by (simp add: days_before_month_13 split: if_splits)
  moreover have "days_before_month y 1 = 0"
    by (simp add: days_before_month.simps)
  ultimately have "n - days_before_year y + days_before_month y 1 \<le> days_before_month y 13"
    by simp
  from find_month_bounds [OF _ _ d1 this md] upper show ?thesis
    by simp
qed

lemma valid_ordinal:
  assumes "datetime_valid t"
  shows "1 \<le> t div us_per_day \<and> t div us_per_day \<le> 3652059"
proof -
  from assms have lo: "86400000000 \<le> t" and hi: "t \<le> 315537983999999999"
    by (simp_all add: datetime_valid_def us_per_day_def)
  from lo have "86400000000 div 86400000000 \<le> t div 86400000000"
    by (intro zdiv_mono1) simp_all
  moreover from hi have "t div 86400000000 \<le> 315537983999999999 div 86400000000"
    by (intro zdiv_mono1) simp_all
  ultimately show ?thesis
    by (simp add: us_per_day_def)
qed

lemma date_fields_bounds:
  assumes "datetime_valid t"
  shows "dt_year t \<le> 9999 \<and> 1 \<le> dt_month t \<and> dt_month t \<le> 12
         \<and> 1 \<le> dt_day t \<and> dt_day t \<le> 31"
proof -
  obtain y m d where ymd: "ord2ymd (t div us_per_day) = (y, m, d)"
    by (cases "ord2ymd (t div us_per_day)") auto
  from valid_ordinal [OF assms] have "1 \<le> t div us_per_day" and "t div us_per_day \<le> 3652059"
    by simp_all
  from ord2ymd_bounds [OF this ymd] ymd show ?thesis
    by (simp add: dt_year_def dt_month_def dt_day_def)
qed

lemma time_fields_bounds:
  "0 \<le> dt_hour t \<and> dt_hour t < 24 \<and> 0 \<le> dt_minute t \<and> dt_minute t < 60
   \<and> 0 \<le> dt_second t \<and> dt_second t < 60
   \<and> 0 \<le> dt_microsecond t \<and> dt_microsecond t < 1000000"
proof -
  have h: "t mod 86400000000 \<le> 86399999999" and h0: "0 \<le> t mod 86400000000"
    using pos_mod_bound [of 86400000000 t] by simp_all
  from h have "(t mod 86400000000) div 3600000000 \<le> 86399999999 div 3600000000"
    by (intro zdiv_mono1) simp_all
  then have hour: "dt_hour t < 24"
    by (simp add: dt_hour_def us_per_day_def)
  from h0 have hour0: "0 \<le> dt_hour t"
    by (simp add: dt_hour_def us_per_day_def pos_imp_zdiv_nonneg_iff)
  have m: "t mod 3600000000 \<le> 3599999999" and m0: "0 \<le> t mod 3600000000"
    using pos_mod_bound [of 3600000000 t] by simp_all
  from m have "(t mod 3600000000) div 60000000 \<le> 3599999999 div 60000000"
    by (intro zdiv_mono1) simp_all
  then have minute: "dt_minute t < 60"
    by (simp add: dt_minute_def)
  from m0 have minute0: "0 \<le> dt_minute t"
    by (simp add: dt_minute_def pos_imp_zdiv_nonneg_iff)
  have s: "t mod 60000000 \<le> 59999999" and s0: "0 \<le> t mod 60000000"
    using pos_mod_bound [of 60000000 t] by simp_all
  from s have "(t mod 60000000) div 1000000 \<le> 59999999 div 1000000"
    by (intro zdiv_mono1) simp_all
  then have second: "dt_second t < 60"
    by (simp add: dt_second_def)
  from s0 have second0: "0 \<le> dt_second t"
    by (simp add: dt_second_def pos_imp_zdiv_nonneg_iff)
  have "0 \<le> dt_microsecond t" and "dt_microsecond t < 1000000"
    by (simp_all add: dt_microsecond_def)
  with hour hour0 minute minute0 second second0 show ?thesis
    by simp
qed


subsection \<open>The NLLoc line\<close>

lemma digit_char_digit:
  assumes "0 \<le> d" and "d \<le> 9"
  shows "isdigit (digit_char d) \<and> digit_value (digit_char d) = d"
proof -
  from assms(1) obtain k :: nat where d: "d = int k"
    using nonneg_int_cases by blast
  with assms(2) have k: "k \<le> 9"
    by simp
  have "digit_char d = char_of (of_nat (48 + k) :: int)"
    by (simp add: digit_char_def d)
  also have "\<dots> = char_of (48 + k)"
    by (rule char_of_nat)
  finally have "of_char (digit_char d) = (48 + k) mod 256"
    by (simp only: of_char_of)
  with k have "of_char (digit_char d) = 48 + k"
    by simp
  with k d show ?thesis
    by (simp add: isdigit_def digit_value_def)
qed

lemma digits_value_snoc: "digits_value (ds @ [c]) = 10 * digits_value ds + digit_value c"
  by (simp add: digits_value_def)

lemma decimal_digits:
  "0 \<le> n \<Longrightarrow> list_all isdigit (decimal n) \<and> digits_value (decimal n) = n"
proof (induction n rule: decimal.induct)
  case (1 n)
  show ?case
  proof (cases "n < 10")
    case True
    with "1.prems" have "isdigit (digit_char n) \<and> digit_value (digit_char n) = n"
      by (intro digit_char_digit) simp_all
    moreover from True have "decimal n = [digit_char n]"
      by (subst decimal.simps) simp
    ultimately show ?thesis
      by (simp add: digits_value_def)
  next
    case False
    then have unfold: "decimal n = decimal (n div 10) @ [digit_char (n mod 10)]"
      by (subst decimal.simps) simp
    from "1.prems" have "0 \<le> n div 10"
      by (simp add: pos_imp_zdiv_nonneg_iff)
    from "1.IH" [OF False this]
    have ih: "list_all isdigit (decimal (n div 10))" "digits_value (decimal (n div 10)) = n div 10"
      by simp_all
    have "0 \<le> n mod 10" and "n mod 10 \<le> 9"
      using pos_mod_bound [of 10 n] by simp_all
    then have last: "isdigit (digit_char (n mod 10))"
      "digit_value (digit_char (n mod 10)) = n mod 10"
      using digit_char_digit by blast+
    have "10 * (n div 10) + n mod 10 = n"
      by simp
    with ih last show ?thesis
      unfolding unfold digits_value_snoc by simp
  qed
qed

lemma decimal_length_le:
  "0 \<le> n \<Longrightarrow> n < 10 ^ Suc k \<Longrightarrow> length (decimal n) \<le> Suc k"
proof (induction k arbitrary: n)
  case 0
  then have "decimal n = [digit_char n]"
    by (subst decimal.simps) simp
  then show ?case
    by simp
next
  case (Suc k)
  show ?case
  proof (cases "n < 10")
    case True
    then have "decimal n = [digit_char n]"
      by (subst decimal.simps) simp
    then show ?thesis
      by simp
  next
    case False
    then have unfold: "decimal n = decimal (n div 10) @ [digit_char (n mod 10)]"
      by (subst decimal.simps) simp
    from Suc.prems(1) have nonneg: "0 \<le> n div 10"
      by (simp add: pos_imp_zdiv_nonneg_iff)
    have "10 * (n div 10) \<le> n"
      by (simp add: mult.commute [of 10])
    moreover from Suc.prems(2) have "n < 10 * 10 ^ Suc k"
      by simp
    ultimately have "n div 10 < 10 ^ Suc k"
      by linarith
    from Suc.IH [OF nonneg this] show ?thesis
      unfolding unfold by simp
  qed
qed

lemma decimal_length_eq:
  "10 ^ k \<le> n \<Longrightarrow> n < 10 ^ Suc k \<Longrightarrow> length (decimal n) = Suc k"
proof (induction k arbitrary: n)
  case 0
  then have "decimal n = [digit_char n]"
    by (subst decimal.simps) simp
  then show ?case
    by simp
next
  case (Suc k)
  have "(1::int) \<le> 10 ^ k"
    by simp
  then have "(10::int) \<le> 10 * 10 ^ k"
    by linarith
  moreover from Suc.prems(1) have "10 * 10 ^ k \<le> n"
    by simp
  ultimately have "\<not> n < 10"
    by linarith
  then have unfold: "decimal n = decimal (n div 10) @ [digit_char (n mod 10)]"
    by (subst decimal.simps) simp
  from Suc.prems(1) have "(10 * 10 ^ k) div 10 \<le> n div 10"
    by (intro zdiv_mono1) simp_all
  then have lower: "10 ^ k \<le> n div 10"
    by simp
  have "10 * (n div 10) \<le> n"
    by (simp add: mult.commute [of 10])
  moreover from Suc.prems(2) have "n < 10 * 10 ^ Suc k"
    by simp
  ultimately have "n div 10 < 10 ^ Suc k"
    by linarith
  from Suc.IH [OF lower this] show ?case
    unfolding unfold by simp
qed

lemma digits_value_zeros: "digits_value (replicate k (CHR ''0'') @ s) = digits_value s"
proof -
  have "foldl (\<lambda>a c. 10 * a + digit_value c) 0 (replicate k (CHR ''0'')) = 0"
    by (induction k) (simp_all add: digit_value_def)
  then show ?thesis
    by (simp add: digits_value_def)
qed

lemma numeral_field_zfill:
  assumes "0 \<le> n" and "n < 10 ^ Suc k"
  shows "numeral_field (Suc k) n (zfill (Suc k) (decimal n))"
proof -
  from decimal_digits [OF assms(1)]
  have digits: "list_all isdigit (decimal n)" and val: "digits_value (decimal n) = n"
    by simp_all
  from decimal_length_le [OF assms] have "length (zfill (Suc k) (decimal n)) = Suc k"
    by (simp add: zfill_def)
  moreover have "isdigit (CHR ''0'')"
    by (simp add: isdigit_def)
  with digits have "list_all isdigit (zfill (Suc k) (decimal n))"
    by (auto simp: zfill_def list_all_iff)
  moreover from val have "digits_value (zfill (Suc k) (decimal n)) = n"
    by (simp add: zfill_def digits_value_zeros)
  ultimately show ?thesis
    by (simp add: numeral_field_def)
qed

lemma numeral_field_year:
  assumes "1000 \<le> n" and "n \<le> 9999"
  shows "numeral_field 4 n (decimal n)"
proof -
  from assms have "(10::int) ^ 3 \<le> n" and "n < 10 ^ Suc 3"
    by simp_all
  then have "length (decimal n) = Suc 3"
    by (rule decimal_length_eq)
  moreover from assms(1) have "0 \<le> n"
    by simp
  note decimal_digits [OF this]
  ultimately show ?thesis
    by (simp add: numeral_field_def)
qed

lemma numeral_field_no_newline: "numeral_field w n s \<Longrightarrow> newline \<notin> set s"
proof
  assume "numeral_field w n s" and "newline \<in> set s"
  then have "isdigit newline"
    by (auto simp: numeral_field_def list_all_iff)
  then show False
    by (simp add: isdigit_def newline_def)
qed


text \<open>
  Claim C7 says that the emitter renders every Pick and raises no error, with the
  station padded on the left. A Pick as \<^verbatim>\<open>Pick()\<close> makes it has \<^verbatim>\<open>time = None\<close>, and
  \<^verbatim>\<open>to_nlloc\<close> then raises AttributeError; and \<^verbatim>\<open>f'{station:6}'\<close> puts the blanks
  after the station, not before it. The year is not always rendered in 4 digits either:
  a seconds field \<open>-6e10\<close> passes the signature test, the decoder returns a pick of the
  year 98 for it, and \<^verbatim>\<open>%Y\<close> renders that year as \<open>98\<close>.
\<close>

theorem nlloc_line_needs_a_time:
  "to_nlloc (\<lambda>e. e)
     \<lparr>station = ''AB'', flag = '' '', phase = ''P'', polarity = '' '', quality = 4,
      error = ''0.05'', time = None\<rparr> = Inl AttributeError
   \<and> to_nlloc (\<lambda>e. e)
     \<lparr>station = ''AB'', flag = '' '', phase = ''P'', polarity = '' '', quality = 4,
      error = ''0.05'', time = Some 63082326896780000\<rparr>
     = Inr ''AB     ? ? ? P 19991231 1234 56.780000 GAU 0.05 1.0 1.0 1.0''
   \<and> parse_hypo71_pick_line (''STA  P 1 9912311234-6e10'' @ [newline])
       [''0.01'', ''0.02'', ''0.03'', ''0.04'', ''0.05'']
     = Inr (Some [\<lparr>station = ''STA'', flag = '' '', phase = ''P'', polarity = '' '',
                   quality = 1, error = ''0.02'', time = Some 3082326840000000\<rparr>])
   \<and> to_nlloc (\<lambda>e. e)
     \<lparr>station = ''STA'', flag = '' '', phase = ''P'', polarity = '' '', quality = 1,
      error = ''0.02'', time = Some 3082326840000000\<rparr>
     = Inr ''STA    ? ? ? P 980903 0154 00.000000 GAU 0.02 1.0 1.0 1.0''"
  by code_simp

text \<open>
  Claim C7, amended. For every Pick whose time is set, to a datetime of the year 1000 or
  later, the emitter raises no error and renders the station, followed by blanks up to
  width 6, then \<open>? ? ?\<close>, the phase, the date and time as \<open>YYYYMMDD HHMM SS.ffffff\<close>
  (the year in 4 digits, month, day, hour, minute and second in 2 digits each and the
  microseconds in 6, zeros in front, each field the decimal numeral of its value), then
  \<open>GAU\<close>, the error value and \<open>1.0 1.0 1.0\<close>, single blanks between the fields. The
  text is one line unless the station, the phase or the error value holds a newline.
\<close>

theorem nlloc_line_format:
  assumes "time p = Some t" and "datetime_valid t" and "1000 \<le> dt_year t"
  shows "\<exists>Y M D h m s f.
      to_nlloc str_error p
        = Inr (station p @ replicate (6 - length (station p)) (CHR '' '') @ '' ? ? ? ''
               @ phase p @ '' '' @ Y @ M @ D @ '' '' @ h @ m @ '' '' @ s @ ''.'' @ f
               @ '' GAU '' @ str_error (error p) @ '' 1.0 1.0 1.0'')
      \<and> numeral_field 4 (dt_year t) Y \<and> numeral_field 2 (dt_month t) M
      \<and> numeral_field 2 (dt_day t) D \<and> numeral_field 2 (dt_hour t) h
      \<and> numeral_field 2 (dt_minute t) m \<and> numeral_field 2 (dt_second t) s
      \<and> numeral_field 6 (dt_microsecond t) f
      \<and> 1 \<le> dt_month t \<and> dt_month t \<le> 12 \<and> 1 \<le> dt_day t \<and> dt_day t \<le> 31
      \<and> dt_hour t < 24 \<and> dt_minute t < 60 \<and> dt_second t < 60
      \<and> (newline \<in> set (station p @ '' ? ? ? '' @ phase p @ '' '' @ Y @ M @ D @ '' ''
               @ h @ m @ '' '' @ s @ ''.'' @ f @ '' GAU '' @ str_error (error p)
               @ '' 1.0 1.0 1.0'')
          \<longrightarrow> newline \<in> set (station p @ phase p @ str_error (error p)))"
proof -
  from date_fields_bounds [OF assms(2)]
  have y: "dt_year t \<le> 9999" and mo: "1 \<le> dt_month t" "dt_month t \<le> 12"
    and d: "1 \<le> dt_day t" "dt_day t \<le> 31"
    by simp_all
  from time_fields_bounds [of t]
  have h: "0 \<le> dt_hour t" "dt_hour t < 24" and mi: "0 \<le> dt_minute t" "dt_minute t < 60"
    and s: "0 \<le> dt_second t" "dt_second t < 60"
    and us: "0 \<le> dt_microsecond t" "dt_microsecond t < 1000000"
    by simp_all
  have fY: "numeral_field 4 (dt_year t) (decimal (dt_year t))"
    using assms(3) y by (rule numeral_field_year)
  have two: "numeral_field 2 n (zfill 2 (decimal n))" if "0 \<le> n" and "n < 100" for n
  proof -
    from that have "numeral_field (Suc 1) n (zfill (Suc 1) (decimal n))"
      by (intro numeral_field_zfill) simp_all
    then show ?thesis
      by (simp add: numeral_2_eq_2)
  qed
  have fM: "numeral_field 2 (dt_month t) (zfill 2 (decimal (dt_month t)))"
    using mo by (intro two) simp_all
  have fD: "numeral_field 2 (dt_day t) (zfill 2 (decimal (dt_day t)))"
    using d by (intro two) simp_all
  have fh: "numeral_field 2 (dt_hour t) (zfill 2 (decimal (dt_hour t)))"
    using h by (intro two) simp_all
  have fm: "numeral_field 2 (dt_minute t) (zfill 2 (decimal (dt_minute t)))"
    using mi by (intro two) simp_all
  have fs: "numeral_field 2 (dt_second t) (zfill 2 (decimal (dt_second t)))"
    using s by (intro two) simp_all
  have "numeral_field (Suc 5) (dt_microsecond t) (zfill (Suc 5) (decimal (dt_microsecond t)))"
    using us by (intro numeral_field_zfill) simp_all
  then have ff: "numeral_field 6 (dt_microsecond t) (zfill 6 (decimal (dt_microsecond t)))"
    by (simp add: eval_nat_numeral)
  have out: "to_nlloc str_error p
      = Inr (station p @ replicate (6 - length (station p)) (CHR '' '') @ '' ? ? ? ''
             @ phase p @ '' '' @ decimal (dt_year t) @ zfill 2 (decimal (dt_month t))
             @ zfill 2 (decimal (dt_day t)) @ '' '' @ zfill 2 (decimal (dt_hour t))
             @ zfill 2 (decimal (dt_minute t)) @ '' '' @ zfill 2 (decimal (dt_second t))
             @ ''.'' @ zfill 6 (decimal (dt_microsecond t))
             @ '' GAU '' @ str_error (error p) @ '' 1.0 1.0 1.0'')"
    using assms(1) by (simp add: to_nlloc_def ljust_def strftime_nlloc_def)
  note clean = fY [THEN numeral_field_no_newline] fM [THEN numeral_field_no_newline]
    fD [THEN numeral_field_no_newline] fh [THEN numeral_field_no_newline]
    fm [THEN numeral_field_no_newline] fs [THEN numeral_field_no_newline]
    ff [THEN numeral_field_no_newline]
  have one_line: "newline \<in> set (station p @ '' ? ? ? '' @ phase p @ '' ''
        @ decimal (dt_year t) @ zfill 2 (decimal (dt_month t))
        @ zfill 2 (decimal (dt_day t)) @ '' '' @ zfill 2 (decimal (dt_hour t))
        @ zfill 2 (decimal (dt_minute t)) @ '' '' @ zfill 2 (decimal (dt_second t))
        @ ''.'' @ zfill 6 (decimal (dt_microsecond t))
        @ '' GAU '' @ str_error (error p) @ '' 1.0 1.0 1.0'')
      \<longrightarrow> newline \<in> set (station p @ phase p @ str_error (error p))"
    using clean by (auto simp: newline_def)
  from out fY fM fD fh fm fs ff mo d h(2) mi(2) s(2) one_line show ?thesis
    by blast
qed

theorem nlloc_line_format_witness:
  "time \<lparr>station = ''AB'', flag = '' '', phase = ''P'', polarity = '' '', quality = 4,
        error = ''0.05'', time = Some 63082326896780000\<rparr> = Some 63082326896780000
   \<and> datetime_valid 63082326896780000
   \<and> 1000 \<le> dt_year 63082326896780000
   \<and> (\<exists>Y M D h m s f.
        to_nlloc (\<lambda>e. e) \<lparr>station = ''AB'', flag = '' '', phase = ''P'', polarity = '' '', quality = 4,
        error = ''0.05'', time = Some 63082326896780000\<rparr>
          = Inr (''AB'' @ ''    '' @ '' ? ? ? '' @ ''P'' @ '' '' @ Y @ M @ D @ '' '' @ h @ m
                 @ '' '' @ s @ ''.'' @ f @ '' GAU '' @ ''0.05'' @ '' 1.0 1.0 1.0'')
        \<and> numeral_field 4 (dt_year 63082326896780000) Y
        \<and> numeral_field 2 (dt_month 63082326896780000) M
        \<and> numeral_field 2 (dt_day 63082326896780000) D
        \<and> numeral_field 2 (dt_hour 63082326896780000) h
        \<and> numeral_field 2 (dt_minute 63082326896780000) m
        \<and> numeral_field 2 (dt_second 63082326896780000) s
        \<and> numeral_field 6 (dt_microsecond 63082326896780000) f)"
proof -
  let ?p = "\<lparr>station = ''AB'', flag = '' '', phase = ''P'', polarity = '' '', quality = 4,
        error = ''0.05'', time = Some 63082326896780000\<rparr>"
  let ?t = "63082326896780000 :: int"
  have h1: "time ?p = Some ?t"
    by simp
  have h2: "datetime_valid ?t"
    by (simp add: datetime_valid_def us_per_day_def)
  have h3: "1000 \<le> dt_year ?t"
    by code_simp
  from nlloc_line_format [OF h1 h2 h3, of "\<lambda>e. e"]
  obtain Y M D h m s f where
    out: "to_nlloc (\<lambda>e. e) ?p
        = Inr (station ?p @ replicate (6 - length (station ?p)) (CHR '' '') @ '' ? ? ? ''
               @ phase ?p @ '' '' @ Y @ M @ D @ '' '' @ h @ m @ '' '' @ s @ ''.'' @ f
               @ '' GAU '' @ error ?p @ '' 1.0 1.0 1.0'')"
    and fields: "numeral_field 4 (dt_year ?t) Y" "numeral_field 2 (dt_month ?t) M"
      "numeral_field 2 (dt_day ?t) D" "numeral_field 2 (dt_hour ?t) h"
      "numeral_field 2 (dt_minute ?t) m" "numeral_field 2 (dt_second ?t) s"
      "numeral_field 6 (dt_microsecond ?t) f"
    by (elim exE conjE)
  have pad: "replicate (6 - length ''AB'') (CHR '' '') = ''    ''"
    by (simp add: numeral_eq_Suc)
  from out have "to_nlloc (\<lambda>e. e) ?p
        = Inr (''AB'' @ ''    '' @ '' ? ? ? '' @ ''P'' @ '' '' @ Y @ M @ D @ '' '' @ h @ m
               @ '' '' @ s @ ''.'' @ f @ '' GAU '' @ ''0.05'' @ '' 1.0 1.0 1.0'')"
    unfolding pad [symmetric] by (simp del: replicate.simps)
  with h1 h2 h3 fields show ?thesis
    by (intro conjI exI)
qed

end
